theory Spec2Isabelle
  imports Main
begin

section \<open>Data model\<close>

text \<open>
  The generation strategy of \<^verbatim>\<open>ax/modelbridge/generation_strategy.py\<close> and the
  generation nodes and steps of \<^verbatim>\<open>ax/modelbridge/generation_node.py\<close>. Exceptions
  are values of the type \<open>error\<close>; a method that can raise returns \<open>error + 'a\<close>.
\<close>

datatype error =
    UserInputError
  | DataRequiredError
  | NoDataError
  | GenerationStrategyCompleted
  | GenerationStrategyRepeatedPoints
  | MaxParallelismReachedException int string int
  | ValueError
  | NotImplementedError
  | RuntimeError
  | IndexError
  | ModelFailure string

text \<open>
  \<^verbatim>\<open>MaxParallelismReachedException\<close> carries \<^verbatim>\<open>step_index\<close>,
  \<^verbatim>\<open>model_name\<close> and \<^verbatim>\<open>num_running\<close>, in this order. \<open>ModelFailure\<close> stands
  for any other exception that an opaque collaborator (a model) raises.
\<close>

text \<open>
  The experiment is a collaborator whose classes are not in the source files at hand.
  Its types are declared here with the fields that the two source files read.
\<close>

datatype TrialStatus =
    CANDIDATE | STAGED | FAILED | COMPLETED | RUNNING | ABANDONED | DISPATCHED
  | EARLY_STOPPED

record Trial =
  status :: TrialStatus
  generation_step_index :: "int option"

datatype Arm = Arm (signature: string)

record Metric =
  metric_name :: string
  is_available_while_running :: bool

text \<open>A row of a data frame: the trial it belongs to, and the rest of the row.\<close>

type_synonym Data = "(int \<times> string) list"

text \<open>Pending observations: metric name to the observation features pending for it.\<close>

type_synonym PendingObservations = "(string \<times> Arm list) list"

record Experiment =
  experiment_name :: "string option"
  trials :: "(int \<times> Trial) list"
  metrics :: "Metric list"
  arms_by_signature :: "(string \<times> Arm) list"
  attached_data :: Data

text \<open>
  \<open>trials\<close> is the dictionary \<^verbatim>\<open>experiment.trials\<close> as the list of its items, in
  the order of iteration. The keys of a dictionary are distinct:
\<close>

definition wf_experiment :: "Experiment \<Rightarrow> bool" where
  "wf_experiment e = distinct (map fst (trials e))"

text \<open>
  Modelled from the spec: \<^verbatim>\<open>Experiment.trial_indices_by_status\<close> is not in the
  source files at hand; the spec describes it as "a derived mapping from status to the
  set of trial indices".
\<close>

definition trial_indices_by_status :: "Experiment \<Rightarrow> TrialStatus \<Rightarrow> int set" where
  "trial_indices_by_status e s = set (map fst (filter (\<lambda>(i, t). status t = s) (trials e)))"

text \<open>
  Modelled from the spec: \<^verbatim>\<open>Experiment.lookup_data\<close> is not in the source files at
  hand; the spec describes it as "a data-lookup operation optionally filtered by trial
  indices".
\<close>

definition lookup_data :: "Experiment \<Rightarrow> int set option \<Rightarrow> Data" where
  "lookup_data e trial_indices =
     (case trial_indices of
        None \<Rightarrow> attached_data e
      | Some S \<Rightarrow> filter (\<lambda>(i, r). i \<in> S) (attached_data e))"

text \<open>\<^verbatim>\<open>TrialStatus.is_running\<close>.\<close>

definition is_running :: "TrialStatus \<Rightarrow> bool" where
  "is_running s = (s = RUNNING)"

record GeneratorRun =
  arms :: "Arm list"
  gr_generation_step_index :: "int option"
  model_state_after_gen :: "(string \<times> string) list option"

text \<open>
  A model reference is a member of the model registry, a factory function, or something
  that is neither (which the construction of a step refuses).
\<close>

datatype ModelRef = Registry string | Factory string | NotCallable

definition is_registry :: "ModelRef \<Rightarrow> bool" where
  "is_registry m = (case m of Registry k \<Rightarrow> True | _ \<Rightarrow> False)"

text \<open>A fitted model bridge, named by the serial number of the fit that made it.\<close>

datatype ModelBridge = ModelBridge (fit_no: nat)

type_synonym CompletionCriterion = "Experiment \<Rightarrow> bool"

record ModelSpec =
  spec_model :: ModelRef
  spec_model_gen_kwargs :: "(string \<times> int) list option"
  fitted_model :: "ModelBridge option"

record GenerationNode =
  model_specs :: "ModelSpec list"
  best_model_selector :: "(ModelSpec list \<Rightarrow> int) option"
  should_deduplicate :: bool

record GenerationStep = GenerationNode +
  model :: ModelRef
  num_trials :: int
  model_gen_kwargs :: "(string \<times> int) list option"
  completion_criteria :: "CompletionCriterion list"
  min_trials_observed :: int
  max_parallelism :: "int option"
  use_update :: bool
  enforce_num_trials :: bool
  index :: int
  model_name :: string

section \<open>GenerationStep: counting trials\<close>

text \<open>
  A step reaches the experiment through its strategy: the property
  \<^verbatim>\<open>GenerationStep.experiment\<close> raises \<^verbatim>\<open>ValueError\<close> when the step has no strategy
  or the strategy has no experiment. The methods below take the experiment as an
  option, \<open>None\<close> standing for both cases.
\<close>

definition step_experiment :: "Experiment option \<Rightarrow> error + Experiment" where
  "step_experiment ex = (case ex of None \<Rightarrow> Inl ValueError | Some e \<Rightarrow> Inr e)"

text \<open>
  \<^verbatim>\<open>trial_indices\<close>: the dictionary from step index to the trials of that step, for
  the steps up to this one; a \<^verbatim>\<open>defaultdict\<close>, read here at the key \<open>k\<close>.
\<close>

definition trial_indices :: "'a GenerationStep_scheme \<Rightarrow> Experiment \<Rightarrow> int \<Rightarrow> int set" where
  "trial_indices s e k =
     set (map fst (filter
       (\<lambda>(i, t). case generation_step_index t of
                    None \<Rightarrow> False
                  | Some g \<Rightarrow> g \<le> index s \<and> g = k)
       (trials e)))"

definition num_can_complete :: "'a GenerationStep_scheme \<Rightarrow> Experiment \<Rightarrow> int" where
  "num_can_complete s e =
     (let step_trials = trial_indices s e (index s);
          by_status = trial_indices_by_status e;
          num_will_not_complete =
            int (card (step_trials \<inter> (by_status FAILED \<union> by_status ABANDONED)))
      in int (card step_trials) - num_will_not_complete)"

definition num_completed :: "'a GenerationStep_scheme \<Rightarrow> Experiment \<Rightarrow> int" where
  "num_completed s e =
     (let step_trials = trial_indices s e (index s);
          by_status = trial_indices_by_status e
      in int (card (step_trials \<inter> (by_status COMPLETED \<union> by_status EARLY_STOPPED))))"

definition num_trials_to_gen_and_complete ::
  "'a GenerationStep_scheme \<Rightarrow> Experiment option \<Rightarrow> error + (int \<times> int)" where
  "num_trials_to_gen_and_complete s ex =
     (if num_trials s = -1 then Inr (-1, -1)
      else case step_experiment ex of
             Inl err \<Rightarrow> Inl err
           | Inr e \<Rightarrow>
               (let left_to_gen = max (num_trials s - num_can_complete s e) 0;
                    left_to_complete = max (min_trials_observed s - num_completed s e) 0
                in Inr (left_to_gen, left_to_complete)))"

definition num_running_trials :: "'a GenerationStep_scheme \<Rightarrow> Experiment \<Rightarrow> int" where
  "num_running_trials s e =
     int (length (filter
       (\<lambda>(i, t). generation_step_index t = Some (index s) \<and> is_running (status t))
       (trials e)))"

definition num_remaining_trials_until_max_parallelism ::
  "'a GenerationStep_scheme \<Rightarrow> bool \<Rightarrow> Experiment option \<Rightarrow> error + int option" where
  "num_remaining_trials_until_max_parallelism s raise_max_parallelism_reached_exception ex =
     (case step_experiment ex of
        Inl err \<Rightarrow> Inl err
      | Inr e \<Rightarrow>
          (let num_running = num_running_trials s e in
           case max_parallelism s of
             None \<Rightarrow> Inr None
           | Some mp \<Rightarrow>
               if raise_max_parallelism_reached_exception \<and> num_running \<ge> mp
               then Inl (MaxParallelismReachedException (index s) (model_name s) num_running)
               else Inr (Some (mp - num_running))))"

section \<open>GenerationStep: construction\<close>

text \<open>
  Modelled from the spec: \<^verbatim>\<open>ModelSpec.model_key\<close> is not in the source files at
  hand; a step without a name takes the name of its model ("derives a display name
  from the model if not supplied").
\<close>

definition model_key :: "ModelRef \<Rightarrow> string" where
  "model_key m = (case m of Registry k \<Rightarrow> k | Factory f \<Rightarrow> f | NotCallable \<Rightarrow> [])"

text \<open>
  \<^verbatim>\<open>GenerationStep.__post_init__\<close>, run on the fields given to the dataclass; it
  builds the single model spec of the step and initialises the node without a selector.
\<close>

definition post_init :: "GenerationStep \<Rightarrow> error + GenerationStep" where
  "post_init s =
     (if enforce_num_trials s \<and> num_trials s \<ge> 0 \<and> min_trials_observed s > num_trials s
      then Inl UserInputError
      else if \<not> is_registry (model s) \<and> model s = NotCallable
      then Inl UserInputError
      else
        (let model_spec = \<lparr>spec_model = model s,
                            spec_model_gen_kwargs = model_gen_kwargs s,
                            fitted_model = None\<rparr>;
             s1 = (if model_name s = [] then s\<lparr>model_name := model_key (model s)\<rparr> else s)
         in Inr (s1\<lparr>model_specs := [model_spec], best_model_selector := None\<rparr>)))"

section \<open>GenerationStrategy: state and construction\<close>

record GenerationStrategy =
  gs_name :: "string option"
  steps :: "GenerationStep list"
  curr :: nat
  uses_registered_models :: bool
  generator_runs :: "GeneratorRun list"
  gs_experiment :: "Experiment option"
  seen_trial_indices_by_status :: "(TrialStatus \<Rightarrow> int set) option"
  gs_model :: "ModelBridge option"

text \<open>
  \<open>curr\<close> is the position in \<open>steps\<close> of the step object that \<^verbatim>\<open>_curr\<close> refers to:
  \<^verbatim>\<open>_curr\<close> is always one of the objects of \<^verbatim>\<open>_steps\<close>, and what is done to it is
  done to that element of the list.
\<close>

definition current_step :: "GenerationStrategy \<Rightarrow> GenerationStep" where
  "current_step g = steps g ! curr g"

text \<open>The position that Python's \<^verbatim>\<open>xs[i]\<close> reads; \<open>None\<close> is \<^verbatim>\<open>IndexError\<close>.\<close>

definition list_index :: "'a list \<Rightarrow> int \<Rightarrow> nat option" where
  "list_index xs i =
     (let n = int (length xs); j = (if i < 0 then n + i else i)
      in if 0 \<le> j \<and> j < n then Some (nat j) else None)"

text \<open>
  The loop of \<^verbatim>\<open>GenerationStrategy.__init__\<close> over \<^verbatim>\<open>enumerate(self._steps)\<close>:
  \<open>idx\<close> is the index of the first step of the list, \<open>n\<close> the number of all steps,
  \<open>reg\<close> the value of \<^verbatim>\<open>_uses_registered_models\<close> so far.
\<close>

fun init_loop ::
  "int \<Rightarrow> int \<Rightarrow> GenerationStep list \<Rightarrow> bool \<Rightarrow> error + (GenerationStep list \<times> bool)" where
  "init_loop idx n [] reg = Inr ([], reg)"
| "init_loop idx n (step # rest) reg =
     (if (if num_trials step = -1 \<and> length (completion_criteria step) < 1
          then idx < n - 1
          else num_trials step < 1 \<and> num_trials step \<noteq> -1)
      then Inl UserInputError
      else if (case max_parallelism step of None \<Rightarrow> False | Some mp \<Rightarrow> mp < 1)
      then Inl UserInputError
      else
        (case init_loop (idx + 1) n rest (reg \<and> is_registry (model step)) of
           Inl err \<Rightarrow> Inl err
         | Inr (rest', reg') \<Rightarrow> Inr (step\<lparr>index := idx\<rparr> # rest', reg')))"

definition init :: "GenerationStep list \<Rightarrow> string option \<Rightarrow> error + GenerationStrategy" where
  "init step_list nm =
     (case init_loop 0 (int (length step_list)) step_list True of
        Inl err \<Rightarrow> Inl err
      | Inr (steps', reg) \<Rightarrow>
          (case list_index steps' 0 of
             None \<Rightarrow> Inl IndexError
           | Some p \<Rightarrow>
               Inr \<lparr>gs_name = nm, steps = steps', curr = p,
                    uses_registered_models = reg, generator_runs = [],
                    gs_experiment = None, seen_trial_indices_by_status = None,
                    gs_model = None\<rparr>))"

text \<open>The property \<^verbatim>\<open>name\<close>, which stores the default name when none is set.\<close>

fun join :: "string \<Rightarrow> string list \<Rightarrow> string" where
  "join sep [] = []"
| "join sep [x] = x"
| "join sep (x # y # ys) = x @ sep @ join sep (y # ys)"

definition name :: "GenerationStrategy \<Rightarrow> string \<times> GenerationStrategy" where
  "name g =
     (case gs_name g of
        Some nm \<Rightarrow> (nm, g)
      | None \<Rightarrow>
          (let factory_names = map model_name (steps g);
               trimmed = map (\<lambda>n. if take 4 n = ''get_'' then drop 4 n else n) factory_names;
               nm = join ''+'' trimmed
           in (nm, g\<lparr>gs_name := Some nm\<rparr>)))"

text \<open>
  \<^verbatim>\<open>clone_reset\<close>: the result of the constructor call, and the strategy itself after
  the call. The deep copy of the steps is a copy of their values.
\<close>

definition clone_reset ::
  "GenerationStrategy \<Rightarrow> (error + GenerationStrategy) \<times> GenerationStrategy" where
  "clone_reset g = (let (nm, g') = name g in (init (steps g') (Some nm), g'))"

text \<open>The setter of the property \<^verbatim>\<open>experiment\<close>.\<close>

definition set_experiment :: "Experiment \<Rightarrow> GenerationStrategy \<Rightarrow> error + GenerationStrategy" where
  "set_experiment e g =
     (case gs_experiment g of
        None \<Rightarrow> Inr (g\<lparr>gs_experiment := Some e\<rparr>)
      | Some old \<Rightarrow>
          if experiment_name e = experiment_name old
          then Inr (g\<lparr>gs_experiment := Some e\<rparr>)
          else Inl ValueError)"

section \<open>GenerationStrategy: moving between steps\<close>

definition move_to_next :: "GenerationStrategy \<Rightarrow> (error + bool) \<times> GenerationStrategy" where
  "move_to_next g =
     (if int (length (steps g)) = index (current_step g) + 1
      then (Inl GenerationStrategyCompleted, g)
      else case list_index (steps g) (index (current_step g) + 1) of
             None \<Rightarrow> (Inl IndexError, g)
           | Some p \<Rightarrow> (Inr True, g\<lparr>curr := p, gs_model := None\<rparr>))"

text \<open>
  \<^verbatim>\<open>_maybe_move_to_next_step\<close>. Both places that move to the next step first raise
  \<^verbatim>\<open>GenerationStrategyCompleted\<close> on the last step; \<open>move_to_next\<close> is that common
  part.
\<close>

definition maybe_move_to_next_step ::
  "bool \<Rightarrow> GenerationStrategy \<Rightarrow> (error + bool) \<times> GenerationStrategy" where
  "maybe_move_to_next_step raise_data_required_error g =
     (case num_trials_to_gen_and_complete (current_step g) (gs_experiment g) of
        Inl err \<Rightarrow> (Inl err, g)
      | Inr (to_gen, to_complete) \<Rightarrow>
          if to_gen = to_complete \<and> to_complete = -1 then
            (if length (completion_criteria (current_step g)) > 0 then
               (case step_experiment (gs_experiment g) of
                  Inl err \<Rightarrow> (Inl err, g)
                | Inr e \<Rightarrow>
                    if list_all (\<lambda>criterion. criterion e) (completion_criteria (current_step g))
                    then move_to_next g
                    else (Inr False, g))
             else (Inr False, g))
          else
            (let enforcing_num_trials = enforce_num_trials (current_step g);
                 trials_left_to_gen = to_gen > 0;
                 trials_left_to_complete = to_complete > 0
             in if trials_left_to_gen \<or> trials_left_to_complete then
                  (if raise_data_required_error \<and> enforcing_num_trials \<and> \<not> trials_left_to_gen
                   then (Inl DataRequiredError, g)
                   else (Inr False, g))
                else move_to_next g))"

text \<open>\<^verbatim>\<open>current_generator_run_limit\<close>.\<close>

definition current_generator_run_limit ::
  "GenerationStrategy \<Rightarrow> (error + (int \<times> bool)) \<times> GenerationStrategy" where
  "current_generator_run_limit g =
     (case maybe_move_to_next_step False g of
        (Inl err, g1) \<Rightarrow>
          if err = GenerationStrategyCompleted then (Inr (0, True), g1) else (Inl err, g1)
      | (Inr moved, g1) \<Rightarrow>
          (case num_trials_to_gen_and_complete (current_step g1) (gs_experiment g1) of
             Inl err \<Rightarrow> (Inl err, g1)
           | Inr (to_gen, to_complete) \<Rightarrow>
               if to_gen < -1 then (Inl RuntimeError, g1)
               else
                 (case num_remaining_trials_until_max_parallelism (current_step g1) False
                         (gs_experiment g1) of
                    Inl err \<Rightarrow> (Inl err, g1)
                  | Inr until_max_parallelism \<Rightarrow>
                      (case until_max_parallelism of
                         Some u \<Rightarrow>
                           if to_gen = -1 then (Inr (u, False), g1)
                           else (Inr (min to_gen u, False), g1)
                       | None \<Rightarrow> (Inr (to_gen, False), g1)))))"

section \<open>The world outside the strategy\<close>

text \<open>
  The models are opaque collaborators. What they return is given by the functions of
  \<open>Collaborators\<close>: the outcome of the \<open>k\<close>-th call of \<^verbatim>\<open>ModelSpec.gen\<close> on its
  arguments, and whether the call of \<^verbatim>\<open>fit\<close> or \<^verbatim>\<open>update\<close> that is the \<open>k\<close>-th
  entry of the log of calls raises. The \<open>World\<close> holds what the calls change: the
  dictionary objects of pending observations, each at its address, the log of the calls
  of \<^verbatim>\<open>fit\<close> and \<^verbatim>\<open>update\<close>, and the number of calls of \<^verbatim>\<open>ModelSpec.gen\<close> so far.
\<close>

datatype ModelCall = FitCall int Data "(string \<times> string) list" | UpdateCall Data

record Collaborators =
  gen_outcome :: "nat \<Rightarrow> int option \<Rightarrow> PendingObservations option \<Rightarrow> error + GeneratorRun"
  fit_outcome :: "nat \<Rightarrow> error option"
  update_outcome :: "nat \<Rightarrow> error option"

record World =
  heap :: "nat \<Rightarrow> PendingObservations"
  next_addr :: nat
  calls :: "ModelCall list"
  n_draws :: nat

definition alloc :: "PendingObservations \<Rightarrow> World \<Rightarrow> nat \<times> World" where
  "alloc v w =
     (next_addr w, w\<lparr>heap := (heap w)(next_addr w := v), next_addr := Suc (next_addr w)\<rparr>)"

section \<open>GenerationNode.gen\<close>

definition MAX_GEN_DRAWS :: int where
  "MAX_GEN_DRAWS = 5"

text \<open>
  \<^verbatim>\<open>_pick_fitted_model_to_gen_from\<close>. The selector is a collaborator that returns an
  index into the model specs; the cross-validation that precedes its call only feeds
  it. The cache \<^verbatim>\<open>_model_spec_to_gen_from\<close> of the result is left out: a step has one
  spec and no selector, so that every access picks the same spec.
\<close>

definition pick_fitted_model_to_gen_from :: "'a GenerationNode_scheme \<Rightarrow> error + ModelSpec" where
  "pick_fitted_model_to_gen_from node =
     (case best_model_selector node of
        None \<Rightarrow>
          (case model_specs node of
             [ms] \<Rightarrow> Inr ms
           | _ \<Rightarrow> Inl NotImplementedError)
      | Some best_diagnostic \<Rightarrow>
          (case list_index (model_specs node) (best_diagnostic (model_specs node)) of
             None \<Rightarrow> Inl IndexError
           | Some p \<Rightarrow> Inr (model_specs node ! p)))"

text \<open>The argument \<^verbatim>\<open>n\<close> of the call of \<^verbatim>\<open>model_spec.gen\<close>.\<close>

definition gen_n :: "ModelSpec \<Rightarrow> int option \<Rightarrow> int option" where
  "gen_n ms n =
     (case spec_model_gen_kwargs ms of
        None \<Rightarrow> n
      | Some kw \<Rightarrow> if n = None \<and> kw \<noteq> [] then map_of kw ''n'' else n)"

text \<open>The value of \<^verbatim>\<open>should_generate_run\<close> after a draw.\<close>

definition should_generate_run ::
  "bool \<Rightarrow> (string \<times> Arm) list option \<Rightarrow> GeneratorRun \<Rightarrow> bool" where
  "should_generate_run dedup arms_by_signature_for_deduplication generator_run =
     (dedup \<and>
      (case arms_by_signature_for_deduplication of
         None \<Rightarrow> False
       | Some m \<Rightarrow>
           m \<noteq> [] \<and> list_ex (\<lambda>arm. signature arm \<in> set (map fst m)) (arms generator_run)))"

text \<open>
  The \<^verbatim>\<open>while\<close> loop of \<^verbatim>\<open>GenerationNode.gen\<close>, entered with \<^verbatim>\<open>n_gen_draws\<close>
  draws made.
\<close>

function gen_draws ::
  "Collaborators \<Rightarrow> bool \<Rightarrow> ModelSpec \<Rightarrow> int option \<Rightarrow> PendingObservations option \<Rightarrow> int \<Rightarrow>
   (string \<times> Arm) list option \<Rightarrow> int \<Rightarrow> World \<Rightarrow> (error + GeneratorRun) \<times> World" where
  "gen_draws co dedup ms n pending max_gen_draws_for_deduplication arms_by_sig n_gen_draws w =
     (case gen_outcome co (n_draws w) (gen_n ms n) pending of
        Inl err \<Rightarrow> (Inl err, w\<lparr>n_draws := Suc (n_draws w)\<rparr>)
      | Inr generator_run \<Rightarrow>
          if should_generate_run dedup arms_by_sig generator_run then
            (if n_gen_draws + 1 > max_gen_draws_for_deduplication
             then (Inl GenerationStrategyRepeatedPoints, w\<lparr>n_draws := Suc (n_draws w)\<rparr>)
             else gen_draws co dedup ms n pending max_gen_draws_for_deduplication arms_by_sig
                    (n_gen_draws + 1) (w\<lparr>n_draws := Suc (n_draws w)\<rparr>))
          else (Inr generator_run, w\<lparr>n_draws := Suc (n_draws w)\<rparr>))"
  by pat_completeness auto
termination
  by (relation "measure (\<lambda>(co, dedup, ms, n, pending, mx, ab, k, w). nat (mx - k))") auto

definition GenerationNode_gen ::
  "Collaborators \<Rightarrow> 'a GenerationNode_scheme \<Rightarrow> int option \<Rightarrow> PendingObservations option \<Rightarrow> int \<Rightarrow>
   (string \<times> Arm) list option \<Rightarrow> World \<Rightarrow> (error + GeneratorRun) \<times> World" where
  "GenerationNode_gen co node n pending max_gen_draws_for_deduplication arms_by_sig w =
     (case pick_fitted_model_to_gen_from node of
        Inl err \<Rightarrow> (Inl err, w)
      | Inr model_spec \<Rightarrow>
          gen_draws co (should_deduplicate node) model_spec n pending
            max_gen_draws_for_deduplication arms_by_sig 0 w)"

definition GenerationStep_gen ::
  "Collaborators \<Rightarrow> GenerationStep \<Rightarrow> int option \<Rightarrow> PendingObservations option \<Rightarrow> int \<Rightarrow>
   (string \<times> Arm) list option \<Rightarrow> World \<Rightarrow> (error + GeneratorRun) \<times> World" where
  "GenerationStep_gen co s n pending max_gen_draws_for_deduplication arms_by_sig w =
     (case GenerationNode_gen co s n pending max_gen_draws_for_deduplication arms_by_sig w of
        (Inl err, w1) \<Rightarrow> (Inl err, w1)
      | (Inr gr, w1) \<Rightarrow> (Inr (gr\<lparr>gr_generation_step_index := Some (index s)\<rparr>), w1))"

section \<open>GenerationStrategy: fitting and updating the current model\<close>

definition get_data_for_fit ::
  "'a GenerationStep_scheme \<Rightarrow> Data option \<Rightarrow> bool \<Rightarrow> Experiment option \<Rightarrow> error + Data" where
  "get_data_for_fit s passed_in_data previous_step_required_observations ex =
     (case (case passed_in_data of
              None \<Rightarrow>
                (case step_experiment ex of
                   Inl err \<Rightarrow> Inl err
                 | Inr e \<Rightarrow>
                     if use_update s then
                       (if filter is_available_while_running (metrics e) \<noteq> []
                        then Inl NotImplementedError
                        else Inr (lookup_data e (Some (trial_indices_by_status e COMPLETED))))
                     else Inr (lookup_data e None))
            | Some d \<Rightarrow> Inr d) of
        Inl err \<Rightarrow> Inl err
      | Inr data \<Rightarrow>
          if data = [] \<and> previous_step_required_observations then Inl NoDataError
          else Inr data)"

definition last_generator_run :: "GenerationStrategy \<Rightarrow> GeneratorRun option" where
  "last_generator_run g =
     (if generator_runs g = [] then None else Some (last (generator_runs g)))"

text \<open>
  Modelled from the spec: \<^verbatim>\<open>_extract_model_state_after_gen\<close> is not in the source
  files at hand; the spec describes its result as the "model state recovered from the
  previous generator run".
\<close>

definition extract_model_state_after_gen :: "GeneratorRun \<Rightarrow> (string \<times> string) list" where
  "extract_model_state_after_gen generator_run =
     (case model_state_after_gen generator_run of None \<Rightarrow> [] | Some st \<Rightarrow> st)"

text \<open>
  \<^verbatim>\<open>GenerationNode.fit\<close>: every model spec of the node is fitted, in order, each call
  an entry of the log; the first call that raises ends the loop. The result holds the
  specs as the loop leaves them.
\<close>

fun fit_specs ::
  "Collaborators \<Rightarrow> int \<Rightarrow> Data \<Rightarrow> (string \<times> string) list \<Rightarrow> ModelSpec list \<Rightarrow> World \<Rightarrow>
   error option \<times> ModelSpec list \<times> World" where
  "fit_specs co idx data kw [] w = (None, [], w)"
| "fit_specs co idx data kw (ms # rest) w =
     (case fit_outcome co (length (calls w)) of
        Some err \<Rightarrow> (Some err, ms # rest, w\<lparr>calls := calls w @ [FitCall idx data kw]\<rparr>)
      | None \<Rightarrow>
          (case fit_specs co idx data kw rest (w\<lparr>calls := calls w @ [FitCall idx data kw]\<rparr>) of
             (r, rest', w') \<Rightarrow>
               (r, ms\<lparr>fitted_model := Some (ModelBridge (length (calls w)))\<rparr> # rest', w')))"

text \<open>The model state on the last generator run, as \<^verbatim>\<open>_fit_current_model\<close> finds it.\<close>

definition model_state_on_lgr :: "GenerationStrategy \<Rightarrow> error + (string \<times> string) list" where
  "model_state_on_lgr g =
     (case last_generator_run g of
        None \<Rightarrow> Inr []
      | Some lgr \<Rightarrow>
          if gr_generation_step_index lgr = Some (index (current_step g))
             \<and> (case model_state_after_gen lgr of None \<Rightarrow> False | Some st \<Rightarrow> st \<noteq> [])
          then
            (case model_specs (current_step g) of
               [] \<Rightarrow> Inl IndexError
             | ms # rest \<Rightarrow>
                 if fitted_model ms \<noteq> None \<or> is_registry (model (current_step g))
                 then Inr (extract_model_state_after_gen lgr)
                 else Inr [])
          else Inr [])"

definition fit_current_model ::
  "Collaborators \<Rightarrow> Data \<Rightarrow> GenerationStrategy \<times> World \<Rightarrow>
   (error + unit) \<times> GenerationStrategy \<times> World" where
  "fit_current_model co data gw =
     (case gw of (g, w) \<Rightarrow>
        (case model_state_on_lgr g of
           Inl err \<Rightarrow> (Inl err, g, w)
         | Inr kw \<Rightarrow>
             (case step_experiment (gs_experiment g) of
                Inl err \<Rightarrow> (Inl err, g, w)
              | Inr e \<Rightarrow>
                  (case fit_specs co (index (current_step g)) data kw
                          (model_specs (current_step g)) w of
                     (r, specs', w') \<Rightarrow>
                       (let g1 = g\<lparr>steps := (steps g)
                                   [curr g := (current_step g)\<lparr>model_specs := specs'\<rparr>]\<rparr>
                        in case r of
                             Some err \<Rightarrow> (Inl err, g1, w')
                           | None \<Rightarrow>
                               (case specs' of
                                  [] \<Rightarrow> (Inl IndexError, g1, w')
                                | ms # rest \<Rightarrow>
                                    (Inr (), g1\<lparr>gs_model := fitted_model ms\<rparr>, w')))))))"

definition update_current_model ::
  "Collaborators \<Rightarrow> Data \<Rightarrow> GenerationStrategy \<times> World \<Rightarrow>
   (error + unit) \<times> GenerationStrategy \<times> World" where
  "update_current_model co new_data gw =
     (case gw of (g, w) \<Rightarrow>
        (case gs_model g of
           None \<Rightarrow> (Inl ValueError, g, w)
         | Some m \<Rightarrow>
             (case step_experiment (gs_experiment g) of
                Inl err \<Rightarrow> (Inl err, g, w)
              | Inr e \<Rightarrow>
                  (case update_outcome co (length (calls w)) of
                     Some err \<Rightarrow> (Inl err, g, w\<lparr>calls := calls w @ [UpdateCall new_data]\<rparr>)
                   | None \<Rightarrow> (Inr (), g, w\<lparr>calls := calls w @ [UpdateCall new_data]\<rparr>)))))"

definition find_trials_completed_since_last_gen :: "GenerationStrategy \<Rightarrow> error + int set" where
  "find_trials_completed_since_last_gen g =
     (case step_experiment (gs_experiment g) of
        Inl err \<Rightarrow> Inl err
      | Inr e \<Rightarrow>
          (let completed_now = trial_indices_by_status e COMPLETED in
           case seen_trial_indices_by_status g of
             None \<Rightarrow> Inr completed_now
           | Some seen \<Rightarrow> Inr (completed_now - seen COMPLETED)))"

definition get_data_for_update ::
  "Data option \<Rightarrow> GenerationStrategy \<Rightarrow> error + Data option" where
  "get_data_for_update passed_in_data g =
     (case find_trials_completed_since_last_gen g of
        Inl err \<Rightarrow> Inl err
      | Inr newly_completed_trials \<Rightarrow>
          if card newly_completed_trials = 0 then Inr None
          else
            (case passed_in_data of
               None \<Rightarrow>
                 (case step_experiment (gs_experiment g) of
                    Inl err \<Rightarrow> Inl err
                  | Inr e \<Rightarrow>
                      (let new_data = lookup_data e (Some newly_completed_trials)
                       in if new_data = [] then Inr None else Inr (Some new_data)))
             | Some d \<Rightarrow>
                 if d = [] then Inr None
                 else Inr (Some (filter (\<lambda>(i, r). i \<in> newly_completed_trials) d))))"

definition save_seen_trial_indices :: "GenerationStrategy \<Rightarrow> error + GenerationStrategy" where
  "save_seen_trial_indices g =
     (case step_experiment (gs_experiment g) of
        Inl err \<Rightarrow> Inl err
      | Inr e \<Rightarrow> Inr (g\<lparr>seen_trial_indices_by_status := Some (trial_indices_by_status e)\<rparr>))"

definition fit_or_update_current_model ::
  "Collaborators \<Rightarrow> Data option \<Rightarrow> GenerationStrategy \<times> World \<Rightarrow>
   (error + unit) \<times> GenerationStrategy \<times> World" where
  "fit_or_update_current_model co data gw =
     (case gw of (g, w) \<Rightarrow>
        (case (if gs_model g \<noteq> None \<and> use_update (current_step g) then
                 (case get_data_for_update data g of
                    Inl err \<Rightarrow> (Inl err, g, w)
                  | Inr None \<Rightarrow> (Inr (), g, w)
                  | Inr (Some new_data) \<Rightarrow> update_current_model co new_data (g, w))
               else
                 (case (if index (current_step g) > 0 then
                          (case list_index (steps g) (index (current_step g) - 1) of
                             None \<Rightarrow> Inl IndexError
                           | Some p \<Rightarrow> Inr (min_trials_observed (steps g ! p) > 0))
                        else Inr False) of
                    Inl err \<Rightarrow> (Inl err, g, w)
                  | Inr previous_step_req_observations \<Rightarrow>
                      (case get_data_for_fit (current_step g) data
                              previous_step_req_observations (gs_experiment g) of
                         Inl err \<Rightarrow> (Inl err, g, w)
                       | Inr d \<Rightarrow> fit_current_model co d (g, w)))) of
           (Inl err, g1, w1) \<Rightarrow> (Inl err, g1, w1)
         | (Inr u, g1, w1) \<Rightarrow>
             (case save_seen_trial_indices g1 of
                Inl err \<Rightarrow> (Inl err, g1, w1)
              | Inr g2 \<Rightarrow> (Inr (), g2, w1))))"

section \<open>GenerationStrategy: producing generator runs\<close>

text \<open>
  Modelled from the spec: \<^verbatim>\<open>extend_pending_observations\<close> is not in the source files
  at hand; the spec has it "extend the \<^verbatim>\<open>pending_observations\<close> map with the newly
  proposed candidates". It changes the dictionary object it is given, for every metric
  of the experiment.
\<close>

fun extend_pending :: "string list \<Rightarrow> Arm list \<Rightarrow> PendingObservations \<Rightarrow> PendingObservations" where
  "extend_pending [] new p = p"
| "extend_pending (m # ms) new p =
     extend_pending ms new
       (case map_of p m of
          None \<Rightarrow> p @ [(m, new)]
        | Some old \<Rightarrow> map (\<lambda>(k, v). if k = m then (k, v @ new) else (k, v)) p)"

definition extend_pending_observations ::
  "Experiment \<Rightarrow> nat \<Rightarrow> GeneratorRun \<Rightarrow> World \<Rightarrow> World" where
  "extend_pending_observations e pending_observations generator_run w =
     w\<lparr>heap := (heap w)(pending_observations :=
          extend_pending (map metric_name (metrics e)) (arms generator_run)
            (heap w pending_observations))\<rparr>"

text \<open>
  \<^verbatim>\<open>deepcopy(pending_observations) or {}\<close>: the argument is \<^verbatim>\<open>None\<close> or the
  address of a dictionary. The copy is a new object; when the argument is \<^verbatim>\<open>None\<close>,
  or its copy is empty, the result is another new, empty dictionary.
\<close>

definition deepcopy_or_empty :: "nat option \<Rightarrow> World \<Rightarrow> nat \<times> World" where
  "deepcopy_or_empty pending_observations w =
     (case pending_observations of
        None \<Rightarrow> alloc [] w
      | Some a \<Rightarrow>
          (case alloc (heap w a) w of
             (c, w1) \<Rightarrow> if heap w1 c = [] then alloc [] w1 else (c, w1)))"

text \<open>
  The \<^verbatim>\<open>for\<close> loop of \<^verbatim>\<open>_gen_multiple\<close> with \<open>k\<close> rounds left: \<open>runs\<close> is the
  list \<^verbatim>\<open>generator_runs\<close>, \<open>p\<close> the address of the copy of the pending observations.
\<close>

fun gen_runs_loop ::
  "Collaborators \<Rightarrow> Experiment \<Rightarrow> int \<Rightarrow> nat \<Rightarrow> nat \<Rightarrow> GeneratorRun list \<Rightarrow>
   GenerationStrategy \<times> World \<Rightarrow> (error + GeneratorRun list) \<times> GenerationStrategy \<times> World" where
  "gen_runs_loop co e n p 0 runs (g, w) = (Inr runs, g, w)"
| "gen_runs_loop co e n p (Suc k) runs (g, w) =
     (case GenerationStep_gen co (current_step g) (Some n) (Some (heap w p)) MAX_GEN_DRAWS
             (Some (arms_by_signature e)) w of
        (Inl err, w1) \<Rightarrow>
          if err = DataRequiredError then
            (if length runs = 0 then (Inl err, g, w1) else (Inr runs, g, w1))
          else (Inl err, g, w1)
      | (Inr generator_run, w1) \<Rightarrow>
          gen_runs_loop co e n p k (runs @ [generator_run])
            (g\<lparr>generator_runs := generator_runs g @ [generator_run]\<rparr>,
             extend_pending_observations e p generator_run w1))"

text \<open>The number of rounds of the loop, after both clamps.\<close>

definition clamp_num_generator_runs ::
  "GenerationStrategy \<Rightarrow> int \<Rightarrow> error + int" where
  "clamp_num_generator_runs g num_generator_runs =
     (case num_remaining_trials_until_max_parallelism (current_step g) True (gs_experiment g) of
        Inl err \<Rightarrow> Inl err
      | Inr num_until_max_parallelism \<Rightarrow>
          (let k1 = (case num_until_max_parallelism of
                       None \<Rightarrow> num_generator_runs
                     | Some u \<Rightarrow> min num_generator_runs u)
           in if enforce_num_trials (current_step g) \<and> num_trials (current_step g) > 0 then
                (case step_experiment (gs_experiment g) of
                   Inl err \<Rightarrow> Inl err
                 | Inr e \<Rightarrow>
                     Inr (min k1 (num_trials (current_step g)
                                  - num_can_complete (current_step g) e)))
              else Inr k1))"

text \<open>
  \<^verbatim>\<open>_gen_multiple\<close>. The keyword arguments that it only hands on to the model are
  left out.
\<close>

definition gen_multiple ::
  "Collaborators \<Rightarrow> Experiment \<Rightarrow> int \<Rightarrow> Data option \<Rightarrow> int \<Rightarrow> nat option \<Rightarrow>
   GenerationStrategy \<times> World \<Rightarrow> (error + GeneratorRun list) \<times> GenerationStrategy \<times> World" where
  "gen_multiple co e num_generator_runs data n pending_observations gw =
     (case gw of (g, w) \<Rightarrow>
        (case set_experiment e g of
           Inl err \<Rightarrow> (Inl err, g, w)
         | Inr g1 \<Rightarrow>
             (case maybe_move_to_next_step True g1 of
                (Inl err, g2) \<Rightarrow> (Inl err, g2, w)
              | (Inr moved, g2) \<Rightarrow>
                  (case fit_or_update_current_model co data (g2, w) of
                     (Inl err, g3, w3) \<Rightarrow> (Inl err, g3, w3)
                   | (Inr u, g3, w3) \<Rightarrow>
                       (case clamp_num_generator_runs g3 num_generator_runs of
                          Inl err \<Rightarrow> (Inl err, g3, w3)
                        | Inr k \<Rightarrow>
                            (case deepcopy_or_empty pending_observations w3 of
                               (p, w4) \<Rightarrow>
                                 gen_runs_loop co e n p (nat k) [] (g3, w4)))))))"

text \<open>\<^verbatim>\<open>gen\<close>: the first of the runs of \<^verbatim>\<open>_gen_multiple\<close> for one run.\<close>

definition gen ::
  "Collaborators \<Rightarrow> Experiment \<Rightarrow> Data option \<Rightarrow> int \<Rightarrow> nat option \<Rightarrow>
   GenerationStrategy \<times> World \<Rightarrow> (error + GeneratorRun) \<times> GenerationStrategy \<times> World" where
  "gen co e data n pending_observations gw =
     (case gen_multiple co e 1 data n pending_observations gw of
        (Inl err, g1, w1) \<Rightarrow> (Inl err, g1, w1)
      | (Inr runs, g1, w1) \<Rightarrow>
          (case runs of
             [] \<Rightarrow> (Inl IndexError, g1, w1)
           | r # rest \<Rightarrow> (Inr r, g1, w1)))"

section \<open>Sequences of calls\<close>

datatype Call =
    CallGen Experiment "Data option" int "nat option"
  | CallGenMultiple Experiment int "Data option" int "nat option"
  | CallLimit

definition run_call ::
  "Collaborators \<Rightarrow> Call \<Rightarrow> GenerationStrategy \<times> World \<Rightarrow> GenerationStrategy \<times> World" where
  "run_call co c gw =
     (case c of
        CallGen e data n pending \<Rightarrow> snd (gen co e data n pending gw)
      | CallGenMultiple e k data n pending \<Rightarrow> snd (gen_multiple co e k data n pending gw)
      | CallLimit \<Rightarrow> (snd (current_generator_run_limit (fst gw)), snd gw))"

fun run_calls ::
  "Collaborators \<Rightarrow> Call list \<Rightarrow> GenerationStrategy \<times> World \<Rightarrow> GenerationStrategy \<times> World" where
  "run_calls co [] gw = gw"
| "run_calls co (c # cs) gw = run_calls co cs (run_call co c gw)"

text \<open>
  The states that a strategy can be in: those that a sequence of calls reaches from
  the result of the constructor.
\<close>

definition reachable :: "GenerationStrategy \<Rightarrow> bool" where
  "reachable g =
     (\<exists>ss nm g0 co cs w. init ss nm = Inr g0 \<and> g = fst (run_calls co cs (g0, w)))"

section \<open>Invariants of the strategy\<close>

text \<open>
  What the constructor establishes and every call keeps: the current step is one of
  the steps, and every step holds its own position as its index.
\<close>

definition wf_strategy :: "GenerationStrategy \<Rightarrow> bool" where
  "wf_strategy g =
     (curr g < length (steps g) \<and> map index (steps g) = map int [0 ..< length (steps g)])"

text \<open>
  The constructor leaves every step as it finds it but for the index, and a strategy
  made by it passes its checks again: this is what \<^verbatim>\<open>clone_reset\<close> relies on when it
  hands the steps of a strategy to the constructor.
\<close>

definition valid_strategy :: "GenerationStrategy \<Rightarrow> bool" where
  "valid_strategy g =
     (curr g < length (steps g) \<and>
      (\<exists>reg. init_loop 0 (int (length (steps g))) (steps g) True = Inr (steps g, reg)))"

text \<open>
  A step without its model specs: what the construction of the strategy sets and no
  call changes.
\<close>

definition step_config :: "GenerationStep \<Rightarrow> GenerationStep" where
  "step_config s = s\<lparr>model_specs := []\<rparr>"

section \<open>The construction as a program\<close>

text \<open>
  The program \<^verbatim>\<open>GenerationStrategy(steps=[GenerationStep(...), ...], name=...)\<close>:
  the steps are made first, in order, from the fields given for each, then the strategy.
\<close>

fun post_init_all :: "GenerationStep list \<Rightarrow> error + GenerationStep list" where
  "post_init_all [] = Inr []"
| "post_init_all (a # as) =
     (case post_init a of
        Inl err \<Rightarrow> Inl err
      | Inr s \<Rightarrow> (case post_init_all as of Inl err \<Rightarrow> Inl err | Inr ss \<Rightarrow> Inr (s # ss)))"

definition construct :: "GenerationStep list \<Rightarrow> string option \<Rightarrow> error + GenerationStrategy" where
  "construct given nm =
     (case post_init_all given of Inl err \<Rightarrow> Inl err | Inr ss \<Rightarrow> init ss nm)"

section \<open>The notions of the claims\<close>

text \<open>
  The number of the trials of a step that are not in status \<open>FAILED\<close> or \<open>ABANDONED\<close>,
  the number of those in status \<open>COMPLETED\<close> or \<open>EARLY_STOPPED\<close>, and the number of
  those in status \<open>RUNNING\<close>.
\<close>

definition spec_num_can_complete :: "'a GenerationStep_scheme \<Rightarrow> Experiment \<Rightarrow> int" where
  "spec_num_can_complete s e =
     int (length (filter
       (\<lambda>(i, t). generation_step_index t = Some (index s) \<and>
                  status t \<noteq> FAILED \<and> status t \<noteq> ABANDONED)
       (trials e)))"

definition spec_num_completed :: "'a GenerationStep_scheme \<Rightarrow> Experiment \<Rightarrow> int" where
  "spec_num_completed s e =
     int (length (filter
       (\<lambda>(i, t). generation_step_index t = Some (index s) \<and>
                  (status t = COMPLETED \<or> status t = EARLY_STOPPED))
       (trials e)))"

definition spec_num_running :: "'a GenerationStep_scheme \<Rightarrow> Experiment \<Rightarrow> int" where
  "spec_num_running s e =
     int (length (filter
       (\<lambda>(i, t). generation_step_index t = Some (index s) \<and> status t = RUNNING)
       (trials e)))"

text \<open>
  The conditions on the fields of the step at position \<open>idx\<close> of \<open>n\<close> steps under which
  the construction raises \<^verbatim>\<open>UserInputError\<close>: those of \<^verbatim>\<open>__post_init__\<close>, and
  those of the constructor of the strategy.
\<close>

definition post_init_refuses :: "GenerationStep \<Rightarrow> bool" where
  "post_init_refuses a =
     ((enforce_num_trials a \<and> num_trials a \<ge> 0 \<and> min_trials_observed a > num_trials a)
      \<or> model a = NotCallable)"

definition init_refuses :: "int \<Rightarrow> int \<Rightarrow> GenerationStep \<Rightarrow> bool" where
  "init_refuses idx n a =
     ((num_trials a = -1 \<and> completion_criteria a = [] \<and> idx < n - 1)
      \<or> (num_trials a < 1 \<and> num_trials a \<noteq> -1)
      \<or> (case max_parallelism a of None \<Rightarrow> False | Some mp \<Rightarrow> mp < 1))"

text \<open>
  The trials that have entered the status \<open>COMPLETED\<close> since the snapshot, in the words
  of the specification.
\<close>

definition newly_completed :: "GenerationStrategy \<Rightarrow> Experiment \<Rightarrow> int set" where
  "newly_completed g e =
     trial_indices_by_status e COMPLETED
       - (case seen_trial_indices_by_status g of None \<Rightarrow> {} | Some seen \<Rightarrow> seen COMPLETED)"

text \<open>
  The part of \<^verbatim>\<open>_gen_multiple\<close> before its loop: an error with the state it leaves,
  or the number of rounds of the loop, the address of the copy of the pending
  observations and the state in which the loop is entered.
\<close>

definition before_loop ::
  "Collaborators \<Rightarrow> Experiment \<Rightarrow> int \<Rightarrow> Data option \<Rightarrow> nat option \<Rightarrow>
   GenerationStrategy \<times> World \<Rightarrow>
   (error \<times> GenerationStrategy \<times> World) + (nat \<times> nat \<times> GenerationStrategy \<times> World)" where
  "before_loop co e num_generator_runs data pending_observations gw =
     (case gw of (g, w) \<Rightarrow>
        (case set_experiment e g of
           Inl err \<Rightarrow> Inl (err, g, w)
         | Inr g1 \<Rightarrow>
             (case maybe_move_to_next_step True g1 of
                (Inl err, g2) \<Rightarrow> Inl (err, g2, w)
              | (Inr moved, g2) \<Rightarrow>
                  (case fit_or_update_current_model co data (g2, w) of
                     (Inl err, g3, w3) \<Rightarrow> Inl (err, g3, w3)
                   | (Inr u, g3, w3) \<Rightarrow>
                       (case clamp_num_generator_runs g3 num_generator_runs of
                          Inl err \<Rightarrow> Inl (err, g3, w3)
                        | Inr k \<Rightarrow>
                            (case deepcopy_or_empty pending_observations w3 of
                               (p, w4) \<Rightarrow> Inr (nat k, p, g3, w4)))))))"

text \<open>
  The first rounds of a batch, in the words of the specification: from the state
  \<open>(g, w)\<close>, one call of the current step's \<^verbatim>\<open>gen\<close> after the other succeeds, the
  calls return the runs \<open>rs\<close> in this order, each run is recorded in the history of the
  strategy and its candidates are added to the pending observations at \<open>p\<close>; the
  result is the state after these rounds.
\<close>

fun rounds ::
  "Collaborators \<Rightarrow> Experiment \<Rightarrow> int \<Rightarrow> nat \<Rightarrow> GeneratorRun list \<Rightarrow>
   GenerationStrategy \<times> World \<Rightarrow> (GenerationStrategy \<times> World) option" where
  "rounds co e n p [] gw = Some gw"
| "rounds co e n p (r # rs) (g, w) =
     (case GenerationStep_gen co (current_step g) (Some n) (Some (heap w p)) MAX_GEN_DRAWS
             (Some (arms_by_signature e)) w of
        (Inl err, w1) \<Rightarrow> None
      | (Inr r', w1) \<Rightarrow>
          if r' = r
          then rounds co e n p rs
                 (g\<lparr>generator_runs := generator_runs g @ [r]\<rparr>,
                  extend_pending_observations e p r w1)
          else None)"

text \<open>
  The strategy \<open>g\<close>, given the experiment \<open>e\<close>, raises the completed signal in the check
  at the start of a cycle.
\<close>

definition raises_completed :: "GenerationStrategy \<Rightarrow> Experiment \<Rightarrow> bool" where
  "raises_completed g e =
     (fst (maybe_move_to_next_step True (g\<lparr>gs_experiment := Some e\<rparr>))
        = Inl GenerationStrategyCompleted)"

text \<open>
  The experiment \<open>e'\<close> is the experiment \<open>e\<close> of the strategy in a later state in which
  the work of the step \<open>c\<close> is still done: for a step with a budget, the number of its
  trials that can complete and the number of its completed trials are not below those
  in \<open>e\<close>; for a step without a limit, its completion criteria are met.
\<close>

definition no_drop :: "GenerationStep \<Rightarrow> Experiment \<Rightarrow> Experiment \<Rightarrow> bool" where
  "no_drop c e e' =
     (experiment_name e' = experiment_name e \<and>
      (if num_trials c = -1
       then list_all (\<lambda>criterion. criterion e') (completion_criteria c)
       else num_can_complete c e \<le> num_can_complete c e'
            \<and> num_completed c e \<le> num_completed c e'))"

definition call_no_drop :: "GenerationStep \<Rightarrow> Experiment \<Rightarrow> Call \<Rightarrow> bool" where
  "call_no_drop c e call =
     (case call of
        CallGen e' data n pending \<Rightarrow> no_drop c e e'
      | CallGenMultiple e' k data n pending \<Rightarrow> no_drop c e e'
      | CallLimit \<Rightarrow> True)"

text \<open>
  The call fails with the completed signal, which \<^verbatim>\<open>current_generator_run_limit\<close>
  reports as \<open>(0, True)\<close>; and every call of a sequence does, each in the state that
  the calls before it leave.
\<close>

definition call_completed :: "Collaborators \<Rightarrow> Call \<Rightarrow> GenerationStrategy \<times> World \<Rightarrow> bool" where
  "call_completed co call gw =
     (case call of
        CallGen e data n pending \<Rightarrow>
          fst (gen co e data n pending gw) = Inl GenerationStrategyCompleted
      | CallGenMultiple e k data n pending \<Rightarrow>
          fst (gen_multiple co e k data n pending gw) = Inl GenerationStrategyCompleted
      | CallLimit \<Rightarrow> fst (current_generator_run_limit (fst gw)) = Inr (0, True))"

fun all_calls_completed ::
  "Collaborators \<Rightarrow> Call list \<Rightarrow> GenerationStrategy \<times> World \<Rightarrow> bool" where
  "all_calls_completed co [] gw = True"
| "all_calls_completed co (c # cs) gw =
     (call_completed co c gw \<and> all_calls_completed co cs (run_call co c gw))"

section \<open>Example values\<close>

text \<open>
  The fields of \<^verbatim>\<open>GenerationStep(model=Models.SOBOL, num_trials=nt,
  min_trials_observed=mto, max_parallelism=mp)\<close>, the others at their defaults.
\<close>

definition step_fields :: "int \<Rightarrow> int \<Rightarrow> int option \<Rightarrow> GenerationStep" where
  "step_fields nt mto mp =
     \<lparr>model_specs = [], best_model_selector = None, should_deduplicate = False,
      model = Registry ''Sobol'', num_trials = nt, model_gen_kwargs = None,
      completion_criteria = [], min_trials_observed = mto, max_parallelism = mp,
      use_update = False, enforce_num_trials = True, index = -1, model_name = []\<rparr>"

text \<open>That step after \<^verbatim>\<open>__post_init__\<close>, as the step at position \<open>idx\<close> of a strategy.\<close>

definition sobol_step :: "int \<Rightarrow> int \<Rightarrow> int \<Rightarrow> int option \<Rightarrow> GenerationStep" where
  "sobol_step idx nt mto mp =
     (step_fields nt mto mp)
       \<lparr>model_specs := [\<lparr>spec_model = Registry ''Sobol'', spec_model_gen_kwargs = None,
                          fitted_model = None\<rparr>],
        index := idx, model_name := ''Sobol''\<rparr>"

definition strategy_of :: "GenerationStep list \<Rightarrow> GenerationStrategy" where
  "strategy_of ss =
     \<lparr>gs_name = None, steps = ss, curr = 0, uses_registered_models = True,
      generator_runs = [], gs_experiment = None, seen_trial_indices_by_status = None,
      gs_model = None\<rparr>"

definition trial :: "TrialStatus \<Rightarrow> int \<Rightarrow> Trial" where
  "trial st k = \<lparr>status = st, generation_step_index = Some k\<rparr>"

definition experiment_of :: "(int \<times> Trial) list \<Rightarrow> Experiment" where
  "experiment_of ts =
     \<lparr>experiment_name = Some ''test'', trials = ts,
      metrics = [\<lparr>metric_name = ''m1'', is_available_while_running = False\<rparr>],
      arms_by_signature = [], attached_data = []\<rparr>"

text \<open>
  A strategy of one step with \<^verbatim>\<open>num_trials=3\<close> and \<^verbatim>\<open>min_trials_observed=2\<close>, on
  an experiment with three trials of the step, one of them completed.
\<close>

definition data_required_strategy :: GenerationStrategy where
  "data_required_strategy =
     (strategy_of [sobol_step 0 3 2 None])
       \<lparr>gs_experiment := Some (experiment_of
           [(0, trial COMPLETED 0), (1, trial RUNNING 0), (2, trial RUNNING 0)])\<rparr>"

text \<open>
  A model that returns a run of the one arm \<open>dup\<close> on each of its first five draws and
  a run of the arm \<open>unique\<close> from the sixth on; a node that deduplicates; a world in
  which nothing has happened yet.
\<close>

definition run_of :: "Arm \<Rightarrow> GeneratorRun" where
  "run_of a = \<lparr>arms = [a], gr_generation_step_index = None, model_state_after_gen = None\<rparr>"

definition stub :: Collaborators where
  "stub =
     \<lparr>gen_outcome = (\<lambda>k n p. if k < 5 then Inr (run_of (Arm ''dup''))
                               else Inr (run_of (Arm ''unique''))),
      fit_outcome = (\<lambda>k. None),
      update_outcome = (\<lambda>k. None)\<rparr>"

definition dedup_node :: GenerationNode where
  "dedup_node =
     \<lparr>model_specs = [\<lparr>spec_model = Registry ''Sobol'', spec_model_gen_kwargs = None,
                        fitted_model = Some (ModelBridge 0)\<rparr>],
      best_model_selector = None, should_deduplicate = True\<rparr>"

definition world0 :: World where
  "world0 = \<lparr>heap = (\<lambda>a. []), next_addr = 0, calls = [], n_draws = 0\<rparr>"

text \<open>
  A model whose first \<open>j\<close> draws return a run of the arm \<open>a\<close> and whose later draws
  raise \<^verbatim>\<open>DataRequiredError\<close>.
\<close>

definition needs_data_after :: "nat \<Rightarrow> Collaborators" where
  "needs_data_after j =
     \<lparr>gen_outcome = (\<lambda>k n p. if k < j then Inr (run_of (Arm ''a''))
                               else Inl DataRequiredError),
      fit_outcome = (\<lambda>k. None),
      update_outcome = (\<lambda>k. None)\<rparr>"

text \<open>A strategy of one step without a limit of trials.\<close>

definition unlimited_strategy :: GenerationStrategy where
  "unlimited_strategy = strategy_of [sobol_step 0 (-1) 0 None]"

text \<open>
  A strategy of one step with \<^verbatim>\<open>use_update=True\<close> whose model has been fitted when
  the trials 0 and 1 were completed and the trial 2 was running, now on the experiment
  \<open>e\<close>; and the three trials, all completed, with the data \<open>d\<close> attached.
\<close>

definition update_strategy :: "Experiment \<Rightarrow> GenerationStrategy" where
  "update_strategy e =
     (strategy_of
        [(sobol_step 0 (-1) 0 None)
           \<lparr>model_specs := [\<lparr>spec_model = Registry ''Sobol'', spec_model_gen_kwargs = None,
                              fitted_model = Some (ModelBridge 0)\<rparr>],
            use_update := True\<rparr>])
       \<lparr>gs_experiment := Some e,
        seen_trial_indices_by_status := Some (trial_indices_by_status (experiment_of
          [(0, trial COMPLETED 0), (1, trial COMPLETED 0), (2, trial RUNNING 0)])),
        gs_model := Some (ModelBridge 0)\<rparr>"

definition all_completed :: "Data \<Rightarrow> Experiment" where
  "all_completed d =
     (experiment_of [(0, trial COMPLETED 0), (1, trial COMPLETED 0), (2, trial COMPLETED 0)])
       \<lparr>attached_data := d\<rparr>"

text \<open>
  The experiment of that strategy at the time of the fit: the trials 0 and 1 completed,
  the trial 2 running, with the data \<open>d\<close> attached.
\<close>

definition two_completed :: "Data \<Rightarrow> Experiment" where
  "two_completed d =
     (experiment_of [(0, trial COMPLETED 0), (1, trial COMPLETED 0), (2, trial RUNNING 0)])
       \<lparr>attached_data := d\<rparr>"

text \<open>
  A strategy of one step with \<^verbatim>\<open>num_trials=1\<close>; a strategy of two steps; an
  experiment whose only trial, of step 0, has the status \<open>st\<close>; a world in which one
  dictionary of pending observations exists, at the address 0.
\<close>

definition one_trial_strategy :: GenerationStrategy where
  "one_trial_strategy = strategy_of [sobol_step 0 1 0 None]"

definition two_step_strategy :: GenerationStrategy where
  "two_step_strategy = strategy_of [sobol_step 0 1 0 None, sobol_step 1 (-1) 0 None]"

definition one_trial :: "TrialStatus \<Rightarrow> Experiment" where
  "one_trial st = experiment_of [(0, trial st 0)]"

definition world1 :: World where
  "world1 = \<lparr>heap = (\<lambda>a. if a = 0 then [(''m1'', [Arm ''x''])] else []), next_addr = 1,
             calls = [], n_draws = 0\<rparr>"

section \<open>Properties\<close>

subsection \<open>Evaluating the examples\<close>

text \<open>
  The definitions that the evaluation of a call on an example unfolds; and the example
  strategies as results of the constructor.
\<close>

lemmas eval_defs = gen_def gen_multiple_def set_experiment_def strategy_of_def
      sobol_step_def step_fields_def experiment_of_def trial_def
      maybe_move_to_next_step_def move_to_next_def num_trials_to_gen_and_complete_def
      num_can_complete_def num_completed_def trial_indices_def trial_indices_by_status_def
      current_step_def list_index_def
      fit_or_update_current_model_def get_data_for_fit_def step_experiment_def lookup_data_def
      fit_current_model_def model_state_on_lgr_def last_generator_run_def
      save_seen_trial_indices_def clamp_num_generator_runs_def
      num_remaining_trials_until_max_parallelism_def num_running_trials_def is_running_def
      deepcopy_or_empty_def alloc_def GenerationStep_gen_def GenerationNode_gen_def
      pick_fitted_model_to_gen_from_def MAX_GEN_DRAWS_def gen_n_def should_generate_run_def
      extend_pending_observations_def run_of_def

lemmas construct_defs = construct_def init_def post_init_def step_fields_def sobol_step_def
      is_registry_def model_key_def strategy_of_def list_index_def

lemma examples_constructed:
  "construct [step_fields 1 0 None] None = Inr one_trial_strategy"
  "construct [step_fields 1 0 None, step_fields (-1) 0 None] None = Inr two_step_strategy"
  "construct [step_fields (-1) 0 None] None = Inr unlimited_strategy"
  "construct [step_fields 3 2 None] None = Inr (strategy_of [sobol_step 0 3 2 None])"
  by (simp_all add: construct_defs one_trial_strategy_def two_step_strategy_def
      unlimited_strategy_def)

subsection \<open>Counting the trials of a step\<close>

lemma card_keys_filter:
  "distinct (map fst xs) \<Longrightarrow> card (set (map fst (filter P xs))) = length (filter P xs)"
  by (metis distinct_card distinct_map_filter length_map)

lemma keys_filter_Int:
  "distinct (map fst xs) \<Longrightarrow>
   set (map fst (filter P xs)) \<inter> set (map fst (filter Q xs)) =
   set (map fst (filter (\<lambda>x. P x \<and> Q x) xs))"
proof (induction xs)
  case Nil
  then show ?case by simp
next
  case (Cons x xs)
  have notin: "\<And>R. fst x \<notin> set (map fst (filter R xs))"
    using Cons.prems by (auto simp: image_iff)
  from Cons have IH: "set (map fst (filter P xs)) \<inter> set (map fst (filter Q xs)) =
      set (map fst (filter (\<lambda>x. P x \<and> Q x) xs))" by simp
  show ?case using IH notin[of P] notin[of Q] by auto
qed

lemma keys_filter_Un:
  "set (map fst (filter P xs)) \<union> set (map fst (filter Q xs)) =
   set (map fst (filter (\<lambda>x. P x \<or> Q x) xs))"
  by auto

lemma length_filter_diff:
  "int (length (filter P xs)) - int (length (filter (\<lambda>x. P x \<and> Q x) xs)) =
   int (length (filter (\<lambda>x. P x \<and> \<not> Q x) xs))"
  by (induction xs) auto

lemma trial_indices_own:
  "trial_indices s e (index s) =
   set (map fst (filter (\<lambda>it. generation_step_index (snd it) = Some (index s)) (trials e)))"
proof -
  have "filter (\<lambda>(i, t). case generation_step_index t of None \<Rightarrow> False
                   | Some g \<Rightarrow> g \<le> index s \<and> g = index s) (trials e)
        = filter (\<lambda>it. generation_step_index (snd it) = Some (index s)) (trials e)"
    by (rule filter_cong) (auto split: option.splits)
  then show ?thesis unfolding trial_indices_def by simp
qed

lemma by_status_alt:
  "trial_indices_by_status e st = set (map fst (filter (\<lambda>it. status (snd it) = st) (trials e)))"
proof -
  have "filter (\<lambda>(i, t). status t = st) (trials e) = filter (\<lambda>it. status (snd it) = st) (trials e)"
    by (rule filter_cong) auto
  then show ?thesis unfolding trial_indices_by_status_def by simp
qed

lemma num_can_complete_spec:
  assumes "wf_experiment e"
  shows "num_can_complete s e = spec_num_can_complete s e"
proof -
  have d: "distinct (map fst (trials e))" using assms by (simp add: wf_experiment_def)
  have f: "filter (\<lambda>x. generation_step_index (snd x) = Some (index s) \<and>
                 \<not> (status (snd x) = FAILED \<or> status (snd x) = ABANDONED)) (trials e)
        = filter (\<lambda>(i, t). generation_step_index t = Some (index s) \<and>
                  status t \<noteq> FAILED \<and> status t \<noteq> ABANDONED) (trials e)"
    by (rule filter_cong) auto
  show ?thesis
    unfolding num_can_complete_def Let_def trial_indices_own by_status_alt keys_filter_Un
      keys_filter_Int[OF d] card_keys_filter[OF d] spec_num_can_complete_def
      length_filter_diff f ..
qed

lemma num_completed_spec:
  assumes "wf_experiment e"
  shows "num_completed s e = spec_num_completed s e"
proof -
  have d: "distinct (map fst (trials e))" using assms by (simp add: wf_experiment_def)
  have f: "filter (\<lambda>x. generation_step_index (snd x) = Some (index s) \<and>
                 (status (snd x) = COMPLETED \<or> status (snd x) = EARLY_STOPPED)) (trials e)
        = filter (\<lambda>(i, t). generation_step_index t = Some (index s) \<and>
                  (status t = COMPLETED \<or> status t = EARLY_STOPPED)) (trials e)"
    by (rule filter_cong) auto
  show ?thesis
    unfolding num_completed_def Let_def trial_indices_own by_status_alt keys_filter_Un
      keys_filter_Int[OF d] card_keys_filter[OF d] spec_num_completed_def f ..
qed

text \<open>
  C3. On an experiment whose trial indices are distinct, as the keys of a dictionary
  are, \<^verbatim>\<open>num_trials_to_gen_and_complete\<close> returns \<open>(-1, -1)\<close> when \<^verbatim>\<open>num_trials\<close> is
  \<open>-1\<close>, and otherwise the pair of \<open>max (num_trials - num_can_complete) 0\<close> and
  \<open>max (min_trials_observed - num_completed) 0\<close>, where \<open>num_can_complete\<close> is the
  number of the trials of this step that are not \<open>FAILED\<close> or \<open>ABANDONED\<close> and
  \<open>num_completed\<close> the number of those that are \<open>COMPLETED\<close> or \<open>EARLY_STOPPED\<close>.
\<close>

theorem C3_num_trials_to_gen_and_complete:
  assumes "wf_experiment e"
  shows "num_trials_to_gen_and_complete s (Some e) =
     (if num_trials s = -1 then Inr (-1, -1)
      else Inr (max (num_trials s - spec_num_can_complete s e) 0,
                max (min_trials_observed s - spec_num_completed s e) 0))"
  by (simp add: num_trials_to_gen_and_complete_def step_experiment_def
      num_can_complete_spec[OF assms] num_completed_spec[OF assms])

theorem C3_witness:
  "wf_experiment (experiment_of [(0, trial COMPLETED 0), (1, trial FAILED 0),
       (2, trial RUNNING 0), (3, trial COMPLETED 1)])
   \<and> num_trials_to_gen_and_complete (sobol_step 0 3 2 None)
       (Some (experiment_of [(0, trial COMPLETED 0), (1, trial FAILED 0),
          (2, trial RUNNING 0), (3, trial COMPLETED 1)])) = Inr (1, 1)"
proof -
  have w: "wf_experiment (experiment_of [(0, trial COMPLETED 0), (1, trial FAILED 0),
       (2, trial RUNNING 0), (3, trial COMPLETED 1)])"
    by (simp add: wf_experiment_def experiment_of_def)
  show ?thesis
    using w C3_num_trials_to_gen_and_complete[OF w, of "sobol_step 0 3 2 None"]
    by (simp add: spec_num_can_complete_def spec_num_completed_def sobol_step_def
        step_fields_def experiment_of_def trial_def)
qed

text \<open>
  C6. On a step bound to an experiment, \<^verbatim>\<open>num_remaining_trials_until_max_parallelism\<close>
  returns \<^verbatim>\<open>None\<close> when \<^verbatim>\<open>max_parallelism\<close> is unset; when the number of the
  \<open>RUNNING\<close> trials of the step has reached \<^verbatim>\<open>max_parallelism\<close> and the flag is set, it
  raises the max-parallelism error with the step index, the model name and the running
  count; otherwise it returns \<^verbatim>\<open>max_parallelism\<close> minus the running count. With
  \<^verbatim>\<open>max_parallelism=2\<close> and two \<open>RUNNING\<close> trials of the step the call raises, and
  with one of them \<open>COMPLETED\<close> it returns 1.
\<close>

theorem C6_num_remaining_trials_until_max_parallelism:
  "num_remaining_trials_until_max_parallelism s raise_flag (Some e) =
     (case max_parallelism s of
        None \<Rightarrow> Inr None
      | Some mp \<Rightarrow>
          if raise_flag \<and> spec_num_running s e \<ge> mp
          then Inl (MaxParallelismReachedException (index s) (model_name s) (spec_num_running s e))
          else Inr (Some (mp - spec_num_running s e)))
   \<and> num_remaining_trials_until_max_parallelism (sobol_step 0 5 0 (Some 2)) True
        (Some (experiment_of [(0, trial RUNNING 0), (1, trial RUNNING 0)]))
      = Inl (MaxParallelismReachedException 0 ''Sobol'' 2)
   \<and> num_remaining_trials_until_max_parallelism (sobol_step 0 5 0 (Some 2)) True
        (Some (experiment_of [(0, trial COMPLETED 0), (1, trial RUNNING 0)]))
      = Inr (Some 1)"
proof -
  have r: "num_running_trials s e = spec_num_running s e" for s :: "'b GenerationStep_scheme" and e
    by (simp add: num_running_trials_def spec_num_running_def is_running_def)
  have a: "num_remaining_trials_until_max_parallelism s raise_flag (Some e) =
     (case max_parallelism s of
        None \<Rightarrow> Inr None
      | Some mp \<Rightarrow>
          if raise_flag \<and> spec_num_running s e \<ge> mp
          then Inl (MaxParallelismReachedException (index s) (model_name s) (spec_num_running s e))
          else Inr (Some (mp - spec_num_running s e)))"
    by (simp add: num_remaining_trials_until_max_parallelism_def step_experiment_def r Let_def)
  have b: "num_remaining_trials_until_max_parallelism (sobol_step 0 5 0 (Some 2)) True
        (Some (experiment_of [(0, trial RUNNING 0), (1, trial RUNNING 0)]))
      = Inl (MaxParallelismReachedException 0 ''Sobol'' 2)"
    by (simp add: num_remaining_trials_until_max_parallelism_def step_experiment_def
        num_running_trials_def is_running_def sobol_step_def step_fields_def experiment_of_def
        trial_def)
  have c: "num_remaining_trials_until_max_parallelism (sobol_step 0 5 0 (Some 2)) True
        (Some (experiment_of [(0, trial COMPLETED 0), (1, trial RUNNING 0)]))
      = Inr (Some 1)"
    by (simp add: num_remaining_trials_until_max_parallelism_def step_experiment_def
        num_running_trials_def is_running_def sobol_step_def step_fields_def experiment_of_def
        trial_def)
  show ?thesis using a b c by blast
qed

subsection \<open>The check at the start of a generation cycle\<close>

lemma move_to_next_not_data_required:
  "fst (move_to_next g) \<noteq> Inl DataRequiredError"
  by (simp add: move_to_next_def split: option.splits)

text \<open>
  C1. Let the current step have a finite budget and let \<open>to_gen\<close> and \<open>to_complete\<close>
  be its counts of trials left to generate and to complete. The check with the error
  not suppressed raises the data-required error exactly when \<open>to_gen\<close> is zero,
  \<open>to_complete\<close> is positive and the step has \<^verbatim>\<open>enforce_num_trials=True\<close>. With the
  error suppressed the check never raises it, and where the unsuppressed check would,
  it returns \<^verbatim>\<open>False\<close> and leaves the strategy, and so its current step, as it is.
\<close>

theorem C1_data_required_error:
  assumes "num_trials (current_step g) \<noteq> -1"
    and "num_trials_to_gen_and_complete (current_step g) (gs_experiment g)
           = Inr (to_gen, to_complete)"
  shows "(fst (maybe_move_to_next_step True g) = Inl DataRequiredError \<longleftrightarrow>
            to_gen = 0 \<and> to_complete > 0 \<and> enforce_num_trials (current_step g))
       \<and> fst (maybe_move_to_next_step False g) \<noteq> Inl DataRequiredError
       \<and> (fst (maybe_move_to_next_step True g) = Inl DataRequiredError \<longrightarrow>
            maybe_move_to_next_step False g = (Inr False, g))"
proof -
  have nn: "0 \<le> to_gen" "0 \<le> to_complete"
    using assms by (auto simp: num_trials_to_gen_and_complete_def Let_def split: sum.splits)
  show ?thesis
    using nn move_to_next_not_data_required[of g] assms(2)
    by (auto simp: maybe_move_to_next_step_def Let_def)
qed

lemma data_required_strategy_counts:
  "num_trials_to_gen_and_complete (current_step data_required_strategy)
      (gs_experiment data_required_strategy) = Inr (0, 1)"
  by (simp add: data_required_strategy_def strategy_of_def current_step_def sobol_step_def
        step_fields_def experiment_of_def trial_def num_trials_to_gen_and_complete_def
        step_experiment_def num_can_complete_def num_completed_def trial_indices_def
        trial_indices_by_status_def)

theorem C1_witness:
  "num_trials (current_step data_required_strategy) \<noteq> -1
   \<and> num_trials_to_gen_and_complete (current_step data_required_strategy)
        (gs_experiment data_required_strategy) = Inr (0, 1)
   \<and> fst (maybe_move_to_next_step True data_required_strategy) = Inl DataRequiredError
   \<and> maybe_move_to_next_step False data_required_strategy = (Inr False, data_required_strategy)"
proof -
  have f: "num_trials (current_step data_required_strategy) \<noteq> -1"
    by (simp add: data_required_strategy_def strategy_of_def current_step_def sobol_step_def
        step_fields_def)
  have e: "enforce_num_trials (current_step data_required_strategy)"
    by (simp add: data_required_strategy_def strategy_of_def current_step_def sobol_step_def
        step_fields_def)
  show ?thesis
    using C1_data_required_error[OF f data_required_strategy_counts] f e
      data_required_strategy_counts
    by simp
qed

subsection \<open>Deduplication in GenerationNode.gen\<close>

lemma stub_draw:
  "gen_outcome stub k n p =
     (if k < 5 then Inr (run_of (Arm ''dup'')) else Inr (run_of (Arm ''unique'')))"
  by (simp add: stub_def)

lemma dup_is_duplicate:
  "should_generate_run True (Some [(''dup'', Arm ''dup'')]) (run_of (Arm ''dup''))"
  by (simp add: should_generate_run_def run_of_def)

lemma unique_is_not_duplicate:
  "\<not> should_generate_run True (Some [(''dup'', Arm ''dup'')]) (run_of (Arm ''unique''))"
  by (simp add: should_generate_run_def run_of_def)

text \<open>
  C2. The node deduplicates against a map that holds the signature of the arm \<open>dup\<close>;
  the model returns \<open>dup\<close> on its first five draws and \<open>unique\<close> on the sixth. With
  \<^verbatim>\<open>max_gen_draws_for_deduplication=5\<close> the loop draws six times and returns the
  unique arm: the test \<^verbatim>\<open>n_gen_draws > max_gen_draws_for_deduplication\<close> is made
  after the count of draws is increased, so that the error is raised on the duplicate
  of draw number \<open>max + 1\<close>, not of draw number \<open>max\<close>. The same call with the limit 6
  returns the unique arm as well, and with the limit 4 it raises the error.
\<close>

theorem C2_six_draws_with_limit_five:
  "fst (GenerationNode_gen stub dedup_node (Some 1) None 5 (Some [(''dup'', Arm ''dup'')]) world0)
     = Inr (run_of (Arm ''unique''))
   \<and> n_draws (snd (GenerationNode_gen stub dedup_node (Some 1) None 5
        (Some [(''dup'', Arm ''dup'')]) world0)) = 6
   \<and> fst (GenerationNode_gen stub dedup_node (Some 1) None 6 (Some [(''dup'', Arm ''dup'')]) world0)
     = Inr (run_of (Arm ''unique''))
   \<and> fst (GenerationNode_gen stub dedup_node (Some 1) None 4 (Some [(''dup'', Arm ''dup'')]) world0)
     = Inl GenerationStrategyRepeatedPoints"
  by (simp add: GenerationNode_gen_def pick_fitted_model_to_gen_from_def dedup_node_def
      world0_def stub_draw dup_is_duplicate unique_is_not_duplicate)

text \<open>
  In general the loop, entered with no draw made and a limit that is not negative,
  makes at least one draw and at most one more than the limit: the first draw and as
  many further ones as the limit says.
\<close>

lemma gen_draws_number_of_draws:
  "gen_draws co dedup ms n pending mx ab k w = (res, w') \<Longrightarrow> k \<le> mx \<Longrightarrow>
     n_draws w < n_draws w' \<and> int (n_draws w') \<le> int (n_draws w) + (mx - k) + 1"
proof (induction co dedup ms n pending mx ab k w rule: gen_draws.induct)
  case (1 co dedup ms n pending mx ab k w)
  show ?case
  proof (cases "gen_outcome co (n_draws w) (gen_n ms n) pending")
    case (Inl err)
    then have "w' = w\<lparr>n_draws := Suc (n_draws w)\<rparr>"
      using "1.prems"(1) by (subst (asm) gen_draws.simps) auto
    then show ?thesis using "1.prems"(2) by simp
  next
    case (Inr gr)
    show ?thesis
    proof (cases "should_generate_run dedup ab gr \<and> \<not> k + 1 > mx")
      case True
      then have r: "gen_draws co dedup ms n pending mx ab (k + 1) (w\<lparr>n_draws := Suc (n_draws w)\<rparr>)
                 = (res, w')"
        using "1.prems"(1) Inr by (subst (asm) gen_draws.simps) auto
      have "k + 1 \<le> mx" using True by simp
      from "1.IH"[OF Inr _ _ r this] True show ?thesis by auto
    next
      case False
      then have "w' = w\<lparr>n_draws := Suc (n_draws w)\<rparr>"
        using "1.prems"(1) Inr by (subst (asm) gen_draws.simps) (auto split: if_splits)
      then show ?thesis using "1.prems"(2) by simp
    qed
  qed
qed

subsection \<open>Construction\<close>

lemma init_loop_step:
  "init_loop idx n (s # ss) reg =
     (if init_refuses idx n s then Inl UserInputError
      else case init_loop (idx + 1) n ss (reg \<and> is_registry (model s)) of
             Inl err \<Rightarrow> Inl err
           | Inr (rest', reg') \<Rightarrow> Inr (s\<lparr>index := idx\<rparr> # rest', reg'))"
  by (cases "max_parallelism s") (simp_all add: init_refuses_def)

lemma init_loop_Inl:
  "init_loop idx n ss reg = Inl err \<longleftrightarrow>
     err = UserInputError \<and> (\<exists>i<length ss. init_refuses (idx + int i) n (ss ! i))"
proof (induction ss arbitrary: idx reg)
  case Nil
  then show ?case by simp
next
  case (Cons s ss)
  have split: "(\<exists>i<length (s # ss). init_refuses (idx + int i) n ((s # ss) ! i)) \<longleftrightarrow>
      init_refuses idx n s \<or> (\<exists>i<length ss. init_refuses (idx + 1 + int i) n (ss ! i))"
    by (simp add: Ex_less_Suc2 add.assoc)
  show ?case
  proof (cases "init_refuses idx n s")
    case True
    then show ?thesis unfolding split init_loop_step by auto
  next
    case False
    show ?thesis
      unfolding split init_loop_step
      using False Cons.IH[of "idx + 1" "reg \<and> is_registry (model s)"]
      by (cases "init_loop (idx + 1) n ss (reg \<and> is_registry (model s))") auto
  qed
qed


lemma post_init_Inl:
  "post_init a = Inl err \<longleftrightarrow> err = UserInputError \<and> post_init_refuses a"
  by (auto simp: post_init_def post_init_refuses_def is_registry_def Let_def split: ModelRef.splits)

lemma post_init_Inr:
  "post_init a = Inr s \<Longrightarrow>
     num_trials s = num_trials a \<and> completion_criteria s = completion_criteria a \<and>
     max_parallelism s = max_parallelism a"
  by (auto simp: post_init_def Let_def split: if_splits)



lemma init_refuses_cong:
  "num_trials s = num_trials a \<Longrightarrow> completion_criteria s = completion_criteria a \<Longrightarrow>
   max_parallelism s = max_parallelism a \<Longrightarrow> init_refuses idx n s = init_refuses idx n a"
  by (simp add: init_refuses_def)

lemma post_init_all_Inl:
  "post_init_all fs = Inl err \<longleftrightarrow>
     err = UserInputError \<and> (\<exists>i<length fs. post_init_refuses (fs ! i))"
proof (induction fs)
  case Nil
  then show ?case by simp
next
  case (Cons a fs)
  have split: "(\<exists>i<length (a # fs). post_init_refuses ((a # fs) ! i)) \<longleftrightarrow>
      post_init_refuses a \<or> (\<exists>i<length fs. post_init_refuses (fs ! i))"
    by (simp add: Ex_less_Suc2)
  show ?case
  proof (cases "post_init a")
    case (Inl e)
    then show ?thesis unfolding split using post_init_Inl[of a e] by auto
  next
    case (Inr s)
    have nr: "\<not> post_init_refuses a"
      using Inr post_init_Inl[of a UserInputError] by auto
    show ?thesis
      unfolding split using Inr nr Cons.IH
      by (cases "post_init_all fs") auto
  qed
qed

lemma post_init_all_Inr:
  "post_init_all fs = Inr ss \<Longrightarrow>
     length ss = length fs \<and>
     (\<forall>i<length fs. \<forall>idx n. init_refuses idx n (ss ! i) = init_refuses idx n (fs ! i))"
proof (induction fs arbitrary: ss)
  case Nil
  then show ?case by simp
next
  case (Cons a fs)
  from Cons.prems obtain s ss0 where s: "post_init a = Inr s" and ss0: "post_init_all fs = Inr ss0"
    and ss: "ss = s # ss0"
    by (auto split: sum.splits)
  have h: "init_refuses idx n s = init_refuses idx n a" for idx n
    using post_init_Inr[OF s] by (intro init_refuses_cong) simp_all
  have IH: "length ss0 = length fs"
    "\<And>i idx n. i < length fs \<Longrightarrow> init_refuses idx n (ss0 ! i) = init_refuses idx n (fs ! i)"
    using Cons.IH[OF ss0] by auto
  show ?case
  proof (intro conjI allI impI)
    show "length ss = length (a # fs)" using IH(1) ss by simp
  next
    fix i idx n assume "i < length (a # fs)"
    then show "init_refuses idx n (ss ! i) = init_refuses idx n ((a # fs) ! i)"
      using IH(2) h ss by (cases i) auto
  qed
qed

lemma init_loop_Inr:
  "init_loop idx n ss reg = Inr (ss', reg') \<Longrightarrow>
     length ss' = length ss \<and> (\<forall>i<length ss. ss' ! i = (ss ! i)\<lparr>index := idx + int i\<rparr>)"
proof (induction ss arbitrary: idx reg ss')
  case Nil
  then show ?case by simp
next
  case (Cons s ss)
  from Cons.prems obtain rest' where
    r: "init_loop (idx + 1) n ss (reg \<and> is_registry (model s)) = Inr (rest', reg')"
    and ss': "ss' = s\<lparr>index := idx\<rparr> # rest'"
    unfolding init_loop_step by (auto split: if_splits sum.splits)
  have IH: "length rest' = length ss"
    "\<And>i. i < length ss \<Longrightarrow> rest' ! i = (ss ! i)\<lparr>index := idx + 1 + int i\<rparr>"
    using Cons.IH[OF r] by auto
  show ?case
  proof (intro conjI allI impI)
    show "length ss' = length (s # ss)" using IH(1) ss' by simp
  next
    fix i assume "i < length (s # ss)"
    then show "ss' ! i = ((s # ss) ! i)\<lparr>index := idx + int i\<rparr>"
      using IH(2) ss' by (cases i) (auto simp: add.assoc)
  qed
qed

lemma list_index_0: "list_index xs 0 = (if xs = [] then None else Some 0)"
  by (simp add: list_index_def)

text \<open>
  C8, the claim as it stands: a strategy of one step with \<^verbatim>\<open>num_trials=0\<close> and the
  other fields valid is constructed without error. The constructor refuses it.
\<close>

theorem C8_num_trials_zero_refused:
  "construct [step_fields 0 0 None] None = Inl UserInputError"
  by (simp add: construct_def init_def post_init_def step_fields_def is_registry_def
      model_key_def)

text \<open>
  C8, amended. The budget \<^verbatim>\<open>num_trials\<close> of a step must be positive or \<open>-1\<close>. The
  construction of the steps and of the strategy raises the configuration error exactly
  when some step has \<^verbatim>\<open>min_trials_observed > num_trials\<close> with an enforced budget
  that is not negative, a model that is neither a registry member nor callable, the
  budget \<open>-1\<close> without completion criteria at a position before the last, a budget
  below 1 other than \<open>-1\<close>, or a parallelism cap below 1. The only other error of the
  construction is the \<^verbatim>\<open>IndexError\<close> for an empty list of steps.
\<close>

theorem C8_configuration_error:
  "(construct fs nm = Inl UserInputError \<longleftrightarrow>
      (\<exists>i<length fs. post_init_refuses (fs ! i)
                      \<or> init_refuses (int i) (int (length fs)) (fs ! i)))
   \<and> (construct fs nm = Inl IndexError \<longleftrightarrow> fs = [])
   \<and> (\<forall>err. construct fs nm = Inl err \<longrightarrow> err = UserInputError \<or> err = IndexError)"
proof (cases "post_init_all fs")
  case (Inl e)
  then have e: "e = UserInputError" and ex: "\<exists>i<length fs. post_init_refuses (fs ! i)"
    using post_init_all_Inl[of fs e] by auto
  from ex have "fs \<noteq> []" by auto
  then show ?thesis using Inl e ex by (auto simp: construct_def)
next
  case (Inr ss)
  have none: "\<not> (\<exists>i<length fs. post_init_refuses (fs ! i))"
    using Inr post_init_all_Inl[of fs UserInputError] by auto
  have len: "length ss = length fs"
    and same: "\<And>i idx n. i < length fs \<Longrightarrow> init_refuses idx n (ss ! i) = init_refuses idx n (fs ! i)"
    using post_init_all_Inr[OF Inr] by auto
  have c: "construct fs nm = init ss nm" using Inr by (simp add: construct_def)
  show ?thesis
  proof (cases "init_loop 0 (int (length ss)) ss True")
    case (Inl e)
    then have e: "e = UserInputError"
      and ex: "\<exists>i<length ss. init_refuses (int i) (int (length ss)) (ss ! i)"
      using init_loop_Inl[of 0 "int (length ss)" ss True e] by auto
    from ex have ex': "\<exists>i<length fs. init_refuses (int i) (int (length fs)) (fs ! i)"
      using len same by auto
    then have "fs \<noteq> []" by auto
    then show ?thesis using c Inl e ex' by (auto simp: init_def)
  next
    case (Inr r)
    obtain ss' reg where r: "r = (ss', reg)" by (cases r)
    have nex: "\<not> (\<exists>i<length ss. init_refuses (int i) (int (length ss)) (ss ! i))"
      using Inr init_loop_Inl[of 0 "int (length ss)" ss True UserInputError] by auto
    then have nex': "\<not> (\<exists>i<length fs. init_refuses (int i) (int (length fs)) (fs ! i))"
      using len same by auto
    have l: "length ss' = length ss"
      using init_loop_Inr[of 0 "int (length ss)" ss True ss' reg] Inr r by simp
    show ?thesis
      using c Inr r none nex' l len by (auto simp: init_def list_index_0)
  qed
qed

theorem C8_witness:
  "construct [step_fields 3 2 None, step_fields 0 0 None] None = Inl UserInputError"
proof -
  have "init_refuses (int 1) (int (length [step_fields 3 2 None, step_fields 0 0 None]))
          ([step_fields 3 2 None, step_fields 0 0 None] ! 1)"
    by (simp add: init_refuses_def step_fields_def)
  then have "\<exists>i<length [step_fields 3 2 None, step_fields 0 0 None].
      post_init_refuses ([step_fields 3 2 None, step_fields 0 0 None] ! i)
      \<or> init_refuses (int i) (int (length [step_fields 3 2 None, step_fields 0 0 None]))
           ([step_fields 3 2 None, step_fields 0 0 None] ! i)"
    by (intro exI[of _ 1]) simp
  then show ?thesis
    using C8_configuration_error[of "[step_fields 3 2 None, step_fields 0 0 None]" None]
    by blast
qed

subsection \<open>The loop that produces the generator runs\<close>

text \<open>
  \<^verbatim>\<open>_gen_multiple\<close> is its part before the loop followed by the loop, entered with
  an empty list of runs. Rounds that succeed add their runs to the list, in order.
\<close>

lemma gen_multiple_before_loop:
  "gen_multiple co e num data n pending gw =
     (case before_loop co e num data pending gw of
        Inl (err, g', w') \<Rightarrow> (Inl err, g', w')
      | Inr (k, p, g3, w4) \<Rightarrow> gen_runs_loop co e n p k [] (g3, w4))"
  by (cases gw)
     (auto simp: gen_multiple_def before_loop_def split: sum.splits prod.splits)

lemma rounds_then_data_required:
  "rounds co e n p rs (g, w) = Some (g', w') \<Longrightarrow>
   GenerationStep_gen co (current_step g') (Some n) (Some (heap w' p)) MAX_GEN_DRAWS
     (Some (arms_by_signature e)) w' = (Inl DataRequiredError, w1) \<Longrightarrow>
   length rs < k \<Longrightarrow>
   gen_runs_loop co e n p k acc (g, w) =
     (if acc @ rs = [] then Inl DataRequiredError else Inr (acc @ rs), g', w1)"
proof (induction rs arbitrary: g w k acc)
  case Nil
  then obtain k' where k: "k = Suc k'" by (cases k) auto
  from Nil(1) have "g' = g" "w' = w" by simp_all
  then show ?case using Nil(2) k by simp
next
  case (Cons r rs)
  then obtain k' where k: "k = Suc k'" and k': "length rs < k'" by (cases k) auto
  obtain res w2 where s: "GenerationStep_gen co (current_step g) (Some n) (Some (heap w p))
      MAX_GEN_DRAWS (Some (arms_by_signature e)) w = (res, w2)"
    by (cases "GenerationStep_gen co (current_step g) (Some n) (Some (heap w p))
      MAX_GEN_DRAWS (Some (arms_by_signature e)) w")
  have res: "res = Inr r"
    and rest: "rounds co e n p rs (g\<lparr>generator_runs := generator_runs g @ [r]\<rparr>,
                  extend_pending_observations e p r w2) = Some (g', w')"
    using Cons.prems(1) s by (auto split: sum.splits if_splits)
  have "gen_runs_loop co e n p k acc (g, w) =
        gen_runs_loop co e n p k' (acc @ [r])
          (g\<lparr>generator_runs := generator_runs g @ [r]\<rparr>, extend_pending_observations e p r w2)"
    using s res k by simp
  also have "\<dots> = (if (acc @ [r]) @ rs = [] then Inl DataRequiredError
                     else Inr ((acc @ [r]) @ rs), g', w1)"
    by (rule Cons.IH[OF rest Cons.prems(2) k'])
  finally show ?case by simp
qed

lemma rounds_history:
  "rounds co e n p rs (g, w) = Some (g', w') \<Longrightarrow> generator_runs g' = generator_runs g @ rs"
proof (induction rs arbitrary: g w)
  case Nil
  then show ?case by simp
next
  case (Cons r rs)
  obtain res w2 where s: "GenerationStep_gen co (current_step g) (Some n) (Some (heap w p))
      MAX_GEN_DRAWS (Some (arms_by_signature e)) w = (res, w2)"
    by (cases "GenerationStep_gen co (current_step g) (Some n) (Some (heap w p))
      MAX_GEN_DRAWS (Some (arms_by_signature e)) w")
  have rest: "rounds co e n p rs (g\<lparr>generator_runs := generator_runs g @ [r]\<rparr>,
                  extend_pending_observations e p r w2) = Some (g', w')"
    using Cons.prems s by (auto split: sum.splits if_splits)
  from Cons.IH[OF rest] show ?case by simp
qed

text \<open>
  C5. Let \<^verbatim>\<open>_gen_multiple\<close> reach its loop, let the first rounds of the loop
  produce the generator runs \<open>rs\<close>, and let the call of the current step's \<^verbatim>\<open>gen\<close>
  in the next round, which is one of the rounds of the batch, raise the data-required
  error. When this is the first round, so that no run has been produced, the error is
  what \<^verbatim>\<open>_gen_multiple\<close> raises; in any later round the error is swallowed and
  \<^verbatim>\<open>_gen_multiple\<close> returns the runs \<open>rs\<close> produced so far, which are in the history
  of the strategy as well.
\<close>

theorem C5_data_required_in_gen_multiple:
  assumes "before_loop co e num data pending (g, w) = Inr (k, p, g3, w4)"
    and "rounds co e n p rs (g3, w4) = Some (g', w')"
    and "length rs < k"
    and "GenerationStep_gen co (current_step g') (Some n) (Some (heap w' p)) MAX_GEN_DRAWS
           (Some (arms_by_signature e)) w' = (Inl DataRequiredError, w1)"
  shows "gen_multiple co e num data n pending (g, w) =
           (if rs = [] then Inl DataRequiredError else Inr rs, g', w1)
         \<and> generator_runs g' = generator_runs g3 @ rs"
  using rounds_then_data_required[OF assms(2) assms(4) assms(3), of "[]"]
    rounds_history[OF assms(2)] assms(1)
  by (simp add: gen_multiple_before_loop)

text \<open>
  Two calls for two runs on a strategy of one step: the model of the first call
  returns a run on its first draw and raises the error on its second, the model of the
  second call raises the error on its first draw.
\<close>

lemma before_loop_example:
  "before_loop (needs_data_after j) (experiment_of []) 2 None None (unlimited_strategy, world0)
   = Inr (2, 0,
       fst (snd (snd (projr (before_loop (needs_data_after j) (experiment_of []) 2 None None
         (unlimited_strategy, world0))))),
       snd (snd (snd (projr (before_loop (needs_data_after j) (experiment_of []) 2 None None
         (unlimited_strategy, world0))))))"
  by (simp add: before_loop_def eval_defs unlimited_strategy_def world0_def needs_data_after_def)

lemma before_loop_example_state:
  "current_step (fst (snd (snd (projr (before_loop (needs_data_after j) (experiment_of []) 2
      None None (unlimited_strategy, world0))))))
   = (sobol_step 0 (-1) 0 None)\<lparr>model_specs :=
        [\<lparr>spec_model = Registry ''Sobol'', spec_model_gen_kwargs = None,
          fitted_model = Some (ModelBridge 0)\<rparr>]\<rparr>
   \<and> n_draws (snd (snd (snd (projr (before_loop (needs_data_after j) (experiment_of []) 2
      None None (unlimited_strategy, world0)))))) = 0"
  by (simp add: before_loop_def eval_defs unlimited_strategy_def world0_def needs_data_after_def)

lemma step_gen_needs_data:
  "should_deduplicate s = False \<Longrightarrow> best_model_selector s = None \<Longrightarrow> model_specs s = [ms] \<Longrightarrow>
   GenerationStep_gen (needs_data_after j) s n pending mx ab w =
     (if n_draws w < j then Inr ((run_of (Arm ''a''))\<lparr>gr_generation_step_index := Some (index s)\<rparr>)
      else Inl DataRequiredError, w\<lparr>n_draws := Suc (n_draws w)\<rparr>)"
  by (simp add: GenerationStep_gen_def GenerationNode_gen_def pick_fitted_model_to_gen_from_def
      needs_data_after_def should_generate_run_def)

theorem C5_witness:
  "fst (gen_multiple (needs_data_after 1) (experiment_of []) 2 None 1 None
         (unlimited_strategy, world0))
     = Inr [(run_of (Arm ''a''))\<lparr>gr_generation_step_index := Some 0\<rparr>]
   \<and> fst (gen_multiple (needs_data_after 0) (experiment_of []) 2 None 1 None
         (unlimited_strategy, world0))
     = Inl DataRequiredError"
proof -
  let ?r = "(run_of (Arm ''a''))\<lparr>gr_generation_step_index := Some 0\<rparr>"
  let ?e = "experiment_of []"
  define G where "G j = fst (snd (snd (projr (before_loop (needs_data_after j) ?e 2 None None
         (unlimited_strategy, world0)))))" for j
  define W where "W j = snd (snd (snd (projr (before_loop (needs_data_after j) ?e 2 None None
         (unlimited_strategy, world0)))))" for j
  have b: "before_loop (needs_data_after j) ?e 2 None None (unlimited_strategy, world0)
             = Inr (2, 0, G j, W j)" for j
    unfolding G_def W_def by (rule before_loop_example)
  have c: "should_deduplicate (current_step (G j)) = False"
    "best_model_selector (current_step (G j)) = None"
    "model_specs (current_step (G j)) = [\<lparr>spec_model = Registry ''Sobol'',
        spec_model_gen_kwargs = None, fitted_model = Some (ModelBridge 0)\<rparr>]"
    "index (current_step (G j)) = 0" "n_draws (W j) = 0" for j
    unfolding G_def W_def
    by (simp_all add: before_loop_example_state sobol_step_def step_fields_def)
  have gen: "GenerationStep_gen (needs_data_after j) (current_step (G j)) n pending mx ab w =
     (if n_draws w < j then Inr ?r else Inl DataRequiredError, w\<lparr>n_draws := Suc (n_draws w)\<rparr>)"
    for j n pending mx ab w
    using step_gen_needs_data[OF c(1) c(2) c(3), of j j n pending mx ab w] c(4)[of j] by simp
  define G' where "G' = (G 1)\<lparr>generator_runs := generator_runs (G 1) @ [?r]\<rparr>"
  define W' where "W' = extend_pending_observations ?e 0 ?r ((W 1)\<lparr>n_draws := Suc 0\<rparr>)"
  have cs: "current_step G' = current_step (G 1)" by (simp add: G'_def current_step_def)
  have r1: "rounds (needs_data_after 1) ?e 1 0 [?r] (G 1, W 1) = Some (G', W')"
    by (simp add: gen c(5) G'_def W'_def)
  have n': "n_draws W' = 1" by (simp add: W'_def extend_pending_observations_def)
  have g1: "GenerationStep_gen (needs_data_after 1) (current_step G') (Some 1)
      (Some (heap W' 0)) MAX_GEN_DRAWS (Some (arms_by_signature ?e)) W'
      = (Inl DataRequiredError, W'\<lparr>n_draws := Suc (n_draws W')\<rparr>)"
    unfolding cs by (simp add: gen n')
  have later: "gen_multiple (needs_data_after 1) ?e 2 None 1 None (unlimited_strategy, world0)
      = (Inr [?r], G', W'\<lparr>n_draws := Suc (n_draws W')\<rparr>)"
    using C5_data_required_in_gen_multiple[OF b r1 _ g1] by simp
  have r0: "rounds (needs_data_after 0) ?e 1 0 [] (G 0, W 0) = Some (G 0, W 0)" by simp
  have g0: "GenerationStep_gen (needs_data_after 0) (current_step (G 0)) (Some 1)
      (Some (heap (W 0) 0)) MAX_GEN_DRAWS (Some (arms_by_signature ?e)) (W 0)
      = (Inl DataRequiredError, (W 0)\<lparr>n_draws := Suc (n_draws (W 0))\<rparr>)"
    by (simp add: gen)
  have first: "gen_multiple (needs_data_after 0) ?e 2 None 1 None (unlimited_strategy, world0)
      = (Inl DataRequiredError, G 0, (W 0)\<lparr>n_draws := Suc (n_draws (W 0))\<rparr>)"
    using C5_data_required_in_gen_multiple[OF b r0 _ g0] by simp
  show ?thesis using later first by simp
qed

subsection \<open>Updating the current model\<close>

lemma finite_by_status: "finite (trial_indices_by_status e s)"
  by (simp add: trial_indices_by_status_def)

lemma find_trials_newly:
  "gs_experiment g = Some e \<Longrightarrow>
   find_trials_completed_since_last_gen g = Inr (newly_completed g e)"
  by (simp add: find_trials_completed_since_last_gen_def step_experiment_def newly_completed_def
      split: option.splits)

lemma card_newly: "card (newly_completed g e) = 0 \<longleftrightarrow> newly_completed g e = {}"
  by (simp add: newly_completed_def finite_by_status)

lemma get_data_for_update_eq:
  assumes "gs_experiment g = Some e"
  shows "get_data_for_update data g =
     Inr (if newly_completed g e = {} then None
          else case data of
                 None \<Rightarrow> if lookup_data e (Some (newly_completed g e)) = [] then None
                           else Some (lookup_data e (Some (newly_completed g e)))
               | Some d \<Rightarrow> if d = [] then None
                            else Some (filter (\<lambda>(i, r). i \<in> newly_completed g e) d))"
  by (simp add: get_data_for_update_def find_trials_newly[OF assms] card_newly assms
      step_experiment_def Let_def split: option.splits)

lemma update_calls:
  assumes "gs_model g \<noteq> None" "gs_experiment g = Some e"
  shows "calls (snd (snd (update_current_model co d (g, w)))) = calls w @ [UpdateCall d]"
  using assms by (auto simp: update_current_model_def step_experiment_def split: option.splits)

text \<open>
  C7, amended. When the model is fitted or updated with the cached current model set
  and \<^verbatim>\<open>use_update=True\<close> on the current step, no fit is made. If trials have
  entered the status \<open>COMPLETED\<close> since the snapshot and the data found for them is
  not empty (the data of the experiment for exactly these trials when no data is
  passed in; the passed data, when it is not empty, restricted to these trials), the
  one call made is an update with that data. If no trial was completed since the
  snapshot, or the experiment holds no data for the newly completed trials, or the
  passed data is empty, no call is made at all.
\<close>

theorem C7_update_with_new_data:
  assumes "gs_model g \<noteq> None" and "use_update (current_step g)" and "gs_experiment g = Some e"
  shows "calls (snd (snd (fit_or_update_current_model co data (g, w)))) =
     calls w @
       (if newly_completed g e = {} then []
        else case data of
               None \<Rightarrow> if lookup_data e (Some (newly_completed g e)) = [] then []
                         else [UpdateCall (lookup_data e (Some (newly_completed g e)))]
             | Some d \<Rightarrow> if d = [] then []
                          else [UpdateCall (filter (\<lambda>(i, r). i \<in> newly_completed g e) d)])"
proof -
  let ?r = "if newly_completed g e = {} then None
          else case data of
                 None \<Rightarrow> if lookup_data e (Some (newly_completed g e)) = [] then None
                           else Some (lookup_data e (Some (newly_completed g e)))
               | Some d \<Rightarrow> if d = [] then None
                            else Some (filter (\<lambda>(i, r). i \<in> newly_completed g e) d)"
  have gd: "get_data_for_update data g = Inr ?r" by (rule get_data_for_update_eq[OF assms(3)])
  show ?thesis
  proof (cases ?r)
    case None
    then have "get_data_for_update data g = Inr None" using gd by simp
    then have "snd (snd (fit_or_update_current_model co data (g, w))) = w"
      using assms by (simp add: fit_or_update_current_model_def save_seen_trial_indices_def
          step_experiment_def)
    then show ?thesis using None by (auto split: if_splits option.splits)
  next
    case (Some d)
    then have g1: "get_data_for_update data g = Inr (Some d)" using gd by simp
    have "snd (snd (fit_or_update_current_model co data (g, w)))
            = snd (snd (update_current_model co d (g, w)))"
      using assms g1
      by (cases "update_current_model co d (g, w)")
         (auto simp: fit_or_update_current_model_def save_seen_trial_indices_def
          step_experiment_def split: sum.splits)
    then have "calls (snd (snd (fit_or_update_current_model co data (g, w))))
            = calls w @ [UpdateCall d]"
      using update_calls[OF assms(1) assms(3)] by simp
    then show ?thesis using Some by (auto split: if_splits option.splits)
  qed
qed


lemma newly_completed_example:
  "newly_completed (update_strategy (all_completed d)) (all_completed d) = {2}"
  by (auto simp: newly_completed_def update_strategy_def all_completed_def strategy_of_def
      experiment_of_def trial_def trial_indices_by_status_def)

text \<open>
  C7, the claim as it stands: whenever trials were completed since the snapshot, one
  update call is made. The first cycle below fits the model of a step with
  \<^verbatim>\<open>use_update=True\<close> on the data of the completed trials 0 and 1. The trial 2 is
  then completed, with no data attached for it, and the second cycle makes no call.
\<close>

theorem C7_no_update_without_data:
  "calls (snd (snd (gen stub (two_completed [(0, ''y0''), (1, ''y1'')]) None 1 None
      (strategy_of [(sobol_step 0 (-1) 0 None)\<lparr>use_update := True\<rparr>], world0))))
     = [FitCall 0 [(0, ''y0''), (1, ''y1'')] []]
   \<and> calls (snd (snd (gen stub (all_completed [(0, ''y0''), (1, ''y1'')]) None 1 None
      (snd (gen stub (two_completed [(0, ''y0''), (1, ''y1'')]) None 1 None
        (strategy_of [(sobol_step 0 (-1) 0 None)\<lparr>use_update := True\<rparr>], world0))))))
     = [FitCall 0 [(0, ''y0''), (1, ''y1'')] []]"
  by (simp add: eval_defs two_completed_def all_completed_def world0_def stub_def
      update_current_model_def get_data_for_update_def find_trials_completed_since_last_gen_def)

theorem C7_witness:
  "gs_model (update_strategy (all_completed [(0, ''y0''), (1, ''y1''), (2, ''y2'')])) \<noteq> None
   \<and> use_update (current_step (update_strategy (all_completed [(0, ''y0''), (1, ''y1''), (2, ''y2'')])))
   \<and> gs_experiment (update_strategy (all_completed [(0, ''y0''), (1, ''y1''), (2, ''y2'')]))
        = Some (all_completed [(0, ''y0''), (1, ''y1''), (2, ''y2'')])
   \<and> calls (snd (snd (fit_or_update_current_model stub None
        (update_strategy (all_completed [(0, ''y0''), (1, ''y1''), (2, ''y2'')]), world0))))
      = [UpdateCall [(2, ''y2'')]]"
proof -
  let ?d = "[(0, ''y0''), (1, ''y1''), (2, ''y2'')] :: Data"
  have m: "gs_model (update_strategy (all_completed ?d)) \<noteq> None"
    and u: "use_update (current_step (update_strategy (all_completed ?d)))"
    and e: "gs_experiment (update_strategy (all_completed ?d)) = Some (all_completed ?d)"
    by (simp_all add: update_strategy_def strategy_of_def current_step_def sobol_step_def
        step_fields_def)
  have l: "lookup_data (all_completed ?d) (Some {2}) = [(2, ''y2'')]"
    by (simp add: lookup_data_def all_completed_def)
  show ?thesis
    using C7_update_with_new_data[OF m u e, of stub None world0] m u e l
    by (simp add: newly_completed_example world0_def)
qed

text \<open>
  With the data of the trial 2 attached, the second cycle makes the one update call;
  and the state in which the witness makes its call is the one after the first cycle.
\<close>

lemma second_cycle_updates:
  "calls (snd (snd (gen stub (all_completed [(0, ''y0''), (1, ''y1''), (2, ''y2'')]) None 1 None
      (snd (gen stub (two_completed [(0, ''y0''), (1, ''y1'')]) None 1 None
        (strategy_of [(sobol_step 0 (-1) 0 None)\<lparr>use_update := True\<rparr>], world0))))))
     = [FitCall 0 [(0, ''y0''), (1, ''y1'')] [], UpdateCall [(2, ''y2'')]]"
  by (simp add: eval_defs two_completed_def all_completed_def world0_def stub_def
      update_current_model_def get_data_for_update_def find_trials_completed_since_last_gen_def)

lemma update_strategy_after_first_cycle:
  "(fst (snd (gen stub (two_completed d) None 1 None
      (strategy_of [(sobol_step 0 (-1) 0 None)\<lparr>use_update := True\<rparr>], world0))))
     \<lparr>gs_experiment := Some e, generator_runs := []\<rparr>
   = update_strategy e"
  by (simp add: eval_defs two_completed_def world0_def stub_def update_strategy_def fun_eq_iff)

subsection \<open>What the calls leave as it is\<close>

text \<open>
  No call changes a step but in its model specs, none writes to a dictionary of pending
  observations that existed before the call, and the step pointer moves by
  \<open>move_to_next\<close> only.
\<close>

lemma map_update_same: "(map f xs)[i := f (xs ! i)] = map f xs"
  by (metis list_update_id map_update)

lemma index_step_config: "index (step_config s) = index s"
  by (simp add: step_config_def)

lemma map_index_config:
  "map step_config ss' = map step_config ss \<Longrightarrow> map index ss' = map index ss"
proof -
  assume a: "map step_config ss' = map step_config ss"
  have "map index ss' = map index (map step_config ss')" by (simp add: index_step_config)
  also have "\<dots> = map index (map step_config ss)" using a by simp
  also have "\<dots> = map index ss" by (simp add: index_step_config)
  finally show ?thesis .
qed

lemma wf_strategy_config:
  assumes "wf_strategy g" "map step_config (steps g') = map step_config (steps g)"
    "curr g' < length (steps g')"
  shows "wf_strategy g'"
proof -
  have l: "length (steps g') = length (steps g)" using assms(2) by (metis length_map)
  show ?thesis using assms map_index_config[OF assms(2)] l by (simp add: wf_strategy_def)
qed

lemma wf_index: "wf_strategy g \<Longrightarrow> index (current_step g) = int (curr g)"
proof -
  assume w: "wf_strategy g"
  then have c: "curr g < length (steps g)" by (simp add: wf_strategy_def)
  have "index (steps g ! curr g) = map index (steps g) ! curr g" using c by simp
  also have "\<dots> = map int [0..<length (steps g)] ! curr g" using w by (simp add: wf_strategy_def)
  also have "\<dots> = int (curr g)" using c by simp
  finally show ?thesis by (simp add: current_step_def)
qed

lemma set_experiment_frame:
  "set_experiment e g = Inr g1 \<Longrightarrow> g1 = g\<lparr>gs_experiment := Some e\<rparr>"
  by (auto simp: set_experiment_def split: option.splits if_splits)

lemma move_to_next_frame:
  assumes "wf_strategy g" "move_to_next g = (res, g')"
  shows "steps g' = steps g \<and> gs_experiment g' = gs_experiment g \<and> curr g \<le> curr g'
         \<and> curr g' < length (steps g')
         \<and> (res = Inl GenerationStrategyCompleted \<longrightarrow> g' = g)"
proof -
  have i: "index (current_step g) = int (curr g)" by (rule wf_index[OF assms(1)])
  have c: "curr g < length (steps g)" using assms(1) by (simp add: wf_strategy_def)
  show ?thesis
    using assms(2) c
    by (auto simp: move_to_next_def i list_index_def Let_def split: if_splits)
qed

lemma maybe_move_cases:
  "maybe_move_to_next_step r g = (res, g') \<Longrightarrow> g' = g \<or> move_to_next g = (res, g')"
  by (auto simp: maybe_move_to_next_step_def Let_def split: sum.splits if_splits prod.splits)

lemma maybe_move_frame:
  assumes "wf_strategy g" "maybe_move_to_next_step r g = (res, g')"
  shows "steps g' = steps g \<and> gs_experiment g' = gs_experiment g \<and> curr g \<le> curr g'
         \<and> curr g' < length (steps g')
         \<and> (res = Inl GenerationStrategyCompleted \<longrightarrow> g' = g)"
proof -
  have c: "curr g < length (steps g)" using assms(1) by (simp add: wf_strategy_def)
  from maybe_move_cases[OF assms(2)] show ?thesis
  proof
    assume "g' = g"
    then show ?thesis using c by simp
  next
    assume "move_to_next g = (res, g')"
    then show ?thesis by (rule move_to_next_frame[OF assms(1)])
  qed
qed

lemma fit_specs_calls:
  "fit_specs co idx data kw specs w = (r, specs', w') \<Longrightarrow>
     heap w' = heap w \<and> next_addr w' = next_addr w \<and> n_draws w' = n_draws w"
proof (induction specs arbitrary: w r specs' w')
  case Nil
  then show ?case by simp
next
  case (Cons ms rest)
  show ?case
  proof (cases "fit_outcome co (length (calls w))")
    case (Some err)
    then show ?thesis using Cons.prems by auto
  next
    case None
    obtain r0 rest0 w0 where f: "fit_specs co idx data kw rest
        (w\<lparr>calls := calls w @ [FitCall idx data kw]\<rparr>) = (r0, rest0, w0)"
      by (cases "fit_specs co idx data kw rest (w\<lparr>calls := calls w @ [FitCall idx data kw]\<rparr>)")
    have "w' = w0" using Cons.prems None f by simp
    then show ?thesis using Cons.IH[OF f] by simp
  qed
qed

lemma fit_current_model_frame:
  assumes "fit_current_model co d (g, w) = (res, g', w')"
  shows "map step_config (steps g') = map step_config (steps g) \<and> curr g' = curr g
       \<and> gs_experiment g' = gs_experiment g \<and> generator_runs g' = generator_runs g
       \<and> heap w' = heap w \<and> next_addr w' = next_addr w \<and> n_draws w' = n_draws w"
proof -
  have sc: "map step_config ((steps g)[curr g := (current_step g)\<lparr>model_specs := x\<rparr>])
            = map step_config (steps g)" for x
  proof -
    have "step_config ((current_step g)\<lparr>model_specs := x\<rparr>) = step_config (steps g ! curr g)"
      by (simp add: step_config_def current_step_def)
    then show ?thesis by (simp add: map_update map_update_same)
  qed
  show ?thesis
  proof (cases "model_state_on_lgr g")
    case (Inl err)
    then show ?thesis using assms by (simp add: fit_current_model_def)
  next
    case (Inr kw)
    show ?thesis
    proof (cases "gs_experiment g")
      case None
      then show ?thesis using assms Inr by (simp add: fit_current_model_def step_experiment_def)
    next
      case (Some e)
      obtain r specs' w0 where f: "fit_specs co (index (current_step g)) d kw
            (model_specs (current_step g)) w = (r, specs', w0)"
        by (cases "fit_specs co (index (current_step g)) d kw (model_specs (current_step g)) w")
      have w: "w' = w0"
        using assms Inr Some f
        by (auto simp: fit_current_model_def step_experiment_def Let_def
            split: option.splits list.splits)
      have g: "steps g' = (steps g)[curr g := (current_step g)\<lparr>model_specs := specs'\<rparr>]
            \<and> curr g' = curr g \<and> gs_experiment g' = gs_experiment g
            \<and> generator_runs g' = generator_runs g"
        using assms Inr Some f
        by (auto simp: fit_current_model_def step_experiment_def Let_def
            split: option.splits list.splits)
      show ?thesis using g w sc fit_specs_calls[OF f] by simp
    qed
  qed
qed

lemma update_current_model_frame:
  assumes "update_current_model co d (g, w) = (res, g', w')"
  shows "g' = g \<and> heap w' = heap w \<and> next_addr w' = next_addr w \<and> n_draws w' = n_draws w"
  using assms
  by (auto simp: update_current_model_def split: option.splits sum.splits)


lemma fit_or_update_frame:
  assumes "fit_or_update_current_model co data (g, w) = (res, g', w')"
  shows "map step_config (steps g') = map step_config (steps g) \<and> curr g' = curr g
       \<and> gs_experiment g' = gs_experiment g \<and> generator_runs g' = generator_runs g
       \<and> heap w' = heap w \<and> next_addr w' = next_addr w \<and> n_draws w' = n_draws w"
proof -
  define inner where "inner =
    (if gs_model g \<noteq> None \<and> use_update (current_step g) then
                 (case get_data_for_update data g of
                    Inl err \<Rightarrow> (Inl err, g, w)
                  | Inr None \<Rightarrow> (Inr (), g, w)
                  | Inr (Some new_data) \<Rightarrow> update_current_model co new_data (g, w))
               else
                 (case (if index (current_step g) > 0 then
                          (case list_index (steps g) (index (current_step g) - 1) of
                             None \<Rightarrow> Inl IndexError
                           | Some p \<Rightarrow> Inr (min_trials_observed (steps g ! p) > 0))
                        else Inr False) of
                    Inl err \<Rightarrow> (Inl err, g, w)
                  | Inr previous_step_req_observations \<Rightarrow>
                      (case get_data_for_fit (current_step g) data
                              previous_step_req_observations (gs_experiment g) of
                         Inl err \<Rightarrow> (Inl err, g, w)
                       | Inr d \<Rightarrow> fit_current_model co d (g, w))))"
  obtain r1 g1 w1 where i: "inner = (r1, g1, w1)" by (cases inner)
  have f1: "map step_config (steps g1) = map step_config (steps g) \<and> curr g1 = curr g
       \<and> gs_experiment g1 = gs_experiment g \<and> generator_runs g1 = generator_runs g
       \<and> heap w1 = heap w \<and> next_addr w1 = next_addr w \<and> n_draws w1 = n_draws w"
  proof -
    have "(g1 = g \<and> w1 = w) \<or> (\<exists>d. update_current_model co d (g, w) = (r1, g1, w1))
          \<or> (\<exists>d. fit_current_model co d (g, w) = (r1, g1, w1))"
      using i unfolding inner_def
      by (auto split: if_splits sum.splits option.splits)
    then show ?thesis
      using update_current_model_frame[of co _ g w r1 g1 w1]
        fit_current_model_frame[of co _ g w r1 g1 w1]
      by blast
  qed
  have out: "fit_or_update_current_model co data (g, w) =
      (case inner of
         (Inl err, g1, w1) \<Rightarrow> (Inl err, g1, w1)
       | (Inr u, g1, w1) \<Rightarrow>
             (case save_seen_trial_indices g1 of
                Inl err \<Rightarrow> (Inl err, g1, w1)
              | Inr g2 \<Rightarrow> (Inr (), g2, w1)))"
    unfolding inner_def fit_or_update_current_model_def by simp
  have "w' = w1 \<and> (g' = g1 \<or> (\<exists>x. g' = g1\<lparr>seen_trial_indices_by_status := x\<rparr>))"
    using assms i unfolding out
    by (auto simp: save_seen_trial_indices_def split: sum.splits)
  then show ?thesis using f1 by auto
qed

lemma gen_draws_frame:
  "gen_draws co dedup ms n pending mx ab k w = (res, w') \<Longrightarrow>
     heap w' = heap w \<and> next_addr w' = next_addr w \<and> calls w' = calls w"
proof (induction co dedup ms n pending mx ab k w rule: gen_draws.induct)
  case (1 co dedup ms n pending mx ab k w)
  show ?case
  proof (cases "gen_outcome co (n_draws w) (gen_n ms n) pending")
    case (Inl err)
    then show ?thesis using "1.prems" by (subst (asm) gen_draws.simps) auto
  next
    case (Inr gr)
    show ?thesis
    proof (cases "should_generate_run dedup ab gr \<and> \<not> k + 1 > mx")
      case True
      then have "gen_draws co dedup ms n pending mx ab (k + 1) (w\<lparr>n_draws := Suc (n_draws w)\<rparr>)
                 = (res, w')"
        using "1.prems" Inr by (subst (asm) gen_draws.simps) auto
      then have "heap w' = heap (w\<lparr>n_draws := Suc (n_draws w)\<rparr>)
          \<and> next_addr w' = next_addr (w\<lparr>n_draws := Suc (n_draws w)\<rparr>)
          \<and> calls w' = calls (w\<lparr>n_draws := Suc (n_draws w)\<rparr>)"
        using "1.IH"[OF Inr] True by auto
      then show ?thesis by simp
    next
      case False
      then show ?thesis using "1.prems" Inr by (subst (asm) gen_draws.simps) (auto split: if_splits)
    qed
  qed
qed

lemma GenerationStep_gen_frame:
  assumes "GenerationStep_gen co s n pending mx ab w = (res, w')"
  shows "heap w' = heap w \<and> next_addr w' = next_addr w \<and> calls w' = calls w"
proof -
  obtain r0 w0 where n: "GenerationNode_gen co s n pending mx ab w = (r0, w0)"
    by (cases "GenerationNode_gen co s n pending mx ab w")
  have w: "w' = w0" using assms n by (auto simp: GenerationStep_gen_def split: sum.splits)
  have "heap w0 = heap w \<and> next_addr w0 = next_addr w \<and> calls w0 = calls w"
  proof (cases "pick_fitted_model_to_gen_from s")
    case (Inl err)
    then show ?thesis using n by (simp add: GenerationNode_gen_def)
  next
    case (Inr ms)
    then have "gen_draws co (should_deduplicate s) ms n pending mx ab 0 w = (r0, w0)"
      using n by (simp add: GenerationNode_gen_def)
    then show ?thesis by (rule gen_draws_frame)
  qed
  then show ?thesis using w by simp
qed


lemma gen_runs_loop_frame:
  "gen_runs_loop co e n p k runs (g, w) = (res, g', w') \<Longrightarrow>
     steps g' = steps g \<and> curr g' = curr g \<and> gs_experiment g' = gs_experiment g
     \<and> next_addr w' = next_addr w \<and> (\<forall>a. a \<noteq> p \<longrightarrow> heap w' a = heap w a)"
proof (induction k arbitrary: runs g w)
  case 0
  then show ?case by simp
next
  case (Suc k)
  obtain r1 w1 where s: "GenerationStep_gen co (current_step g) (Some n) (Some (heap w p))
      MAX_GEN_DRAWS (Some (arms_by_signature e)) w = (r1, w1)"
    by (cases "GenerationStep_gen co (current_step g) (Some n) (Some (heap w p))
      MAX_GEN_DRAWS (Some (arms_by_signature e)) w")
  have f: "heap w1 = heap w \<and> next_addr w1 = next_addr w"
    using GenerationStep_gen_frame[OF s] by simp
  show ?case
  proof (cases r1)
    case (Inl err)
    then have "g' = g \<and> w' = w1" using Suc.prems s by (auto split: if_splits)
    then show ?thesis using f by simp
  next
    case (Inr gr)
    then have "gen_runs_loop co e n p k (runs @ [gr])
        (g\<lparr>generator_runs := generator_runs g @ [gr]\<rparr>, extend_pending_observations e p gr w1)
        = (res, g', w')"
      using Suc.prems s by simp
    from Suc.IH[OF this] show ?thesis using f by (simp add: extend_pending_observations_def)
  qed
qed

lemma deepcopy_or_empty_frame:
  assumes "deepcopy_or_empty pending w = (p, w')"
  shows "next_addr w \<le> p \<and> p < next_addr w' \<and> (\<forall>a < next_addr w. heap w' a = heap w a)
       \<and> calls w' = calls w"
  using assms
  by (auto simp: deepcopy_or_empty_def alloc_def split: option.splits if_splits)

lemma gen_multiple_world:
  assumes "gen_multiple co e k data n pending (g, w) = (res, g', w')"
  shows "next_addr w \<le> next_addr w' \<and> (\<forall>a < next_addr w. heap w' a = heap w a)"
proof (cases "set_experiment e g")
  case (Inl err)
  then show ?thesis using assms by (simp add: gen_multiple_def)
next
  case (Inr g1)
  obtain r2 g2 where m: "maybe_move_to_next_step True g1 = (r2, g2)"
    by (cases "maybe_move_to_next_step True g1")
  show ?thesis
  proof (cases r2)
    case (Inl err)
    then have "w' = w" using assms Inr m by (simp add: gen_multiple_def)
    then show ?thesis by simp
  next
    case r2: (Inr moved)
    obtain r3 g3 w3 where fu: "fit_or_update_current_model co data (g2, w) = (r3, g3, w3)"
      by (cases "fit_or_update_current_model co data (g2, w)")
    have f3: "heap w3 = heap w" "next_addr w3 = next_addr w"
      using fit_or_update_frame[OF fu] by auto
    show ?thesis
    proof (cases r3)
      case (Inl err)
      then have "w' = w3" using assms Inr m r2 fu by (simp add: gen_multiple_def)
      then show ?thesis using f3 by simp
    next
      case r3: (Inr u)
      show ?thesis
      proof (cases "clamp_num_generator_runs g3 k")
        case (Inl err)
        then have "w' = w3" using assms Inr m r2 fu r3 by (simp add: gen_multiple_def)
        then show ?thesis using f3 by simp
      next
        case k: (Inr k')
        obtain p w4 where d: "deepcopy_or_empty pending w3 = (p, w4)"
          by (cases "deepcopy_or_empty pending w3")
        have f4: "next_addr w3 \<le> p" "p < next_addr w4" "\<forall>a < next_addr w3. heap w4 a = heap w3 a"
          using deepcopy_or_empty_frame[OF d] by auto
        have l: "gen_runs_loop co e n p (nat k') [] (g3, w4) = (res, g', w')"
          using assms Inr m r2 fu r3 k d by (simp add: gen_multiple_def)
        have f5: "next_addr w' = next_addr w4" "\<forall>a. a \<noteq> p \<longrightarrow> heap w' a = heap w4 a"
          using gen_runs_loop_frame[OF l] by auto
        have "next_addr w \<le> next_addr w'" using f3 f4 f5 by simp
        moreover have "\<forall>a < next_addr w. heap w' a = heap w a"
          using f3 f4 f5 by auto
        ultimately show ?thesis by simp
      qed
    qed
  qed
qed

lemma gen_multiple_frame:
  assumes "wf_strategy g" "gen_multiple co e k data n pending (g, w) = (res, g', w')"
  shows "wf_strategy g' \<and> curr g \<le> curr g'
       \<and> map step_config (steps g') = map step_config (steps g)"
proof (cases "set_experiment e g")
  case (Inl err)
  then show ?thesis using assms by (simp add: gen_multiple_def)
next
  case (Inr g1)
  have g1: "g1 = g\<lparr>gs_experiment := Some e\<rparr>" by (rule set_experiment_frame[OF Inr])
  then have w1: "wf_strategy g1" using assms(1) by (simp add: wf_strategy_def)
  obtain r2 g2 where m: "maybe_move_to_next_step True g1 = (r2, g2)"
    by (cases "maybe_move_to_next_step True g1")
  have f2: "steps g2 = steps g1" "curr g1 \<le> curr g2" "curr g2 < length (steps g2)"
    using maybe_move_frame[OF w1 m] by auto
  have w2: "wf_strategy g2" using w1 f2 by (simp add: wf_strategy_def)
  have c2: "curr g \<le> curr g2" using f2 g1 by simp
  have s2: "steps g2 = steps g" using f2 g1 by simp
  show ?thesis
  proof (cases r2)
    case (Inl err)
    then have "g' = g2" using assms(2) Inr m by (simp add: gen_multiple_def)
    then show ?thesis using w2 c2 s2 by simp
  next
    case r2: (Inr moved)
    obtain r3 g3 w3 where fu: "fit_or_update_current_model co data (g2, w) = (r3, g3, w3)"
      by (cases "fit_or_update_current_model co data (g2, w)")
    have f3: "map step_config (steps g3) = map step_config (steps g2)" "curr g3 = curr g2"
      using fit_or_update_frame[OF fu] by auto
    have l3: "length (steps g3) = length (steps g2)" using f3(1) by (metis length_map)
    have w3: "wf_strategy g3"
      using wf_strategy_config[OF w2 f3(1)] f3(2) f2(3) l3 by simp
    have r3: "wf_strategy g3 \<and> curr g \<le> curr g3
       \<and> map step_config (steps g3) = map step_config (steps g)"
      using w3 c2 f3 s2 by simp
    show ?thesis
    proof (cases r3)
      case (Inl err)
      then have "g' = g3"
        using assms(2) Inr m r2 fu by (simp add: gen_multiple_def)
      then show ?thesis using r3 by simp
    next
      case r3': (Inr u)
      show ?thesis
      proof (cases "clamp_num_generator_runs g3 k")
        case (Inl err)
        then have "g' = g3"
          using assms(2) Inr m r2 fu r3' by (simp add: gen_multiple_def)
        then show ?thesis using r3 by simp
      next
        case k: (Inr k')
        obtain p w4 where d: "deepcopy_or_empty pending w3 = (p, w4)"
          by (cases "deepcopy_or_empty pending w3")
        have l: "gen_runs_loop co e n p (nat k') [] (g3, w4) = (res, g', w')"
          using assms(2) Inr m r2 fu r3' k d by (simp add: gen_multiple_def)
        have f5: "steps g' = steps g3" "curr g' = curr g3"
          using gen_runs_loop_frame[OF l] by auto
        have "wf_strategy g'" using w3 f5 by (simp add: wf_strategy_def)
        then show ?thesis using r3 f5 by simp
      qed
    qed
  qed
qed

text \<open>
  C10. Whatever \<^verbatim>\<open>_gen_multiple\<close> returns or raises, the dictionary of pending
  observations that the caller passes, an object that exists at the address \<open>a\<close> when
  the call is made, holds after the call what it held before: the candidates are added
  to the copy that the call makes, at a new address.
\<close>

theorem C10_pending_observations_unchanged:
  assumes "a < next_addr w"
  shows "heap (snd (snd (gen_multiple co e k data n (Some a) (g, w)))) a = heap w a"
proof -
  obtain res g' w' where r: "gen_multiple co e k data n (Some a) (g, w) = (res, g', w')"
    by (cases "gen_multiple co e k data n (Some a) (g, w)")
  show ?thesis using gen_multiple_world[OF r] assms r by simp
qed

theorem C10_witness:
  "0 < next_addr world1
   \<and> heap (snd (snd (gen_multiple stub (experiment_of []) 2 None 1 (Some 0)
        (unlimited_strategy, world1)))) 0 = [(''m1'', [Arm ''x''])]"
proof -
  have a: "0 < next_addr world1" by (simp add: world1_def)
  show ?thesis
    using C10_pending_observations_unchanged[OF a, of stub "experiment_of []" 2 None 1
        unlimited_strategy] a
    by (simp add: world1_def)
qed

text \<open>
  In the call of the witness two runs are produced, and the copy, at the address 1,
  holds their candidates after the call.
\<close>

lemma copy_is_extended:
  "heap (snd (snd (gen_multiple stub (experiment_of []) 2 None 1 (Some 0)
      (unlimited_strategy, world1)))) 1 = [(''m1'', [Arm ''x'', Arm ''dup'', Arm ''dup''])]"
  by (simp add: eval_defs unlimited_strategy_def world1_def stub_def numeral_2_eq_2)

subsection \<open>The step pointer over sequences of calls\<close>

lemma gen_snd: "snd (gen co e data n pending gw) = snd (gen_multiple co e 1 data n pending gw)"
  by (cases "gen_multiple co e 1 data n pending gw")
     (auto simp: gen_def split: sum.splits list.splits)

lemma limit_snd:
  "snd (current_generator_run_limit g) = snd (maybe_move_to_next_step False g)"
  by (cases "maybe_move_to_next_step False g")
     (auto simp: current_generator_run_limit_def split: sum.splits option.splits)

lemma run_call_frame:
  assumes "wf_strategy g" "run_call co c (g, w) = (g', w')"
  shows "wf_strategy g' \<and> curr g \<le> curr g'
       \<and> map step_config (steps g') = map step_config (steps g)"
proof (cases c)
  case (CallGen e data n pending)
  obtain res where "gen_multiple co e 1 data n pending (g, w) = (res, g', w')"
    using assms(2) CallGen by (cases "gen_multiple co e 1 data n pending (g, w)")
      (simp add: run_call_def gen_snd)
  from gen_multiple_frame[OF assms(1) this] show ?thesis by simp
next
  case (CallGenMultiple e k data n pending)
  obtain res where "gen_multiple co e k data n pending (g, w) = (res, g', w')"
    using assms(2) CallGenMultiple by (cases "gen_multiple co e k data n pending (g, w)")
      (simp add: run_call_def)
  from gen_multiple_frame[OF assms(1) this] show ?thesis by simp
next
  case CallLimit
  obtain res where m: "maybe_move_to_next_step False g = (res, g')"
    using assms(2) CallLimit by (cases "maybe_move_to_next_step False g")
      (simp add: run_call_def limit_snd)
  have "steps g' = steps g" "curr g \<le> curr g'" "curr g' < length (steps g')"
    using maybe_move_frame[OF assms(1) m] by auto
  then show ?thesis using assms(1) by (simp add: wf_strategy_def)
qed

lemma run_calls_frame:
  "wf_strategy g \<Longrightarrow> run_calls co cs (g, w) = (g', w') \<Longrightarrow>
     wf_strategy g' \<and> curr g \<le> curr g'
     \<and> map step_config (steps g') = map step_config (steps g)"
proof (induction cs arbitrary: g w)
  case Nil
  then show ?case by simp
next
  case (Cons c cs)
  obtain g1 w1 where c: "run_call co c (g, w) = (g1, w1)" by (cases "run_call co c (g, w)")
  have f1: "wf_strategy g1" "curr g \<le> curr g1"
    "map step_config (steps g1) = map step_config (steps g)"
    using run_call_frame[OF Cons.prems(1) c] by auto
  have "run_calls co cs (g1, w1) = (g', w')" using Cons.prems(2) c by simp
  from Cons.IH[OF f1(1) this] show ?case using f1(2) f1(3) by simp
qed

lemma move_to_next_completed:
  "fst (move_to_next g) = Inl GenerationStrategyCompleted \<Longrightarrow>
   move_to_next g = (Inl GenerationStrategyCompleted, g)"
  by (auto simp: move_to_next_def split: if_splits option.splits)

lemma maybe_move_completed:
  assumes "fst (maybe_move_to_next_step True g) = Inl GenerationStrategyCompleted"
  shows "maybe_move_to_next_step r g = (Inl GenerationStrategyCompleted, g)"
proof -
  have v: "step_experiment x \<noteq> Inl GenerationStrategyCompleted" for x
    by (simp add: step_experiment_def split: option.splits)
  have n: "num_trials_to_gen_and_complete s x \<noteq> Inl GenerationStrategyCompleted"
    for s :: GenerationStep and x
    by (auto simp: num_trials_to_gen_and_complete_def step_experiment_def Let_def
        split: option.splits)
  show ?thesis
    using assms v n[of "current_step g" "gs_experiment g"] move_to_next_completed[of g]
    by (auto simp: maybe_move_to_next_step_def Let_def split: sum.splits if_splits prod.splits)
qed

lemma gen_multiple_completed:
  assumes "set_experiment e g = Inr g1"
    and "fst (maybe_move_to_next_step True g1) = Inl GenerationStrategyCompleted"
  shows "gen_multiple co e k data n pending (g, w) = (Inl GenerationStrategyCompleted, g1, w)"
  using assms(1) maybe_move_completed[OF assms(2), of True]
  by (simp add: gen_multiple_def)

text \<open>
  C4, the claim as it stands: once the completed signal was raised, every further
  attempt to generate fails with it. The strategy of one step with \<^verbatim>\<open>num_trials=1\<close>
  produces its run; while the trial made of the run is running, the next call raises
  the signal; the trial then fails, and the call after that returns a run of the step.
\<close>

theorem C4_generation_resumes_after_completed:
  "fst (gen stub (experiment_of []) None 1 None (one_trial_strategy, world0))
     = Inr ((run_of (Arm ''dup''))\<lparr>gr_generation_step_index := Some 0\<rparr>)
   \<and> fst (gen stub (one_trial RUNNING) None 1 None
        (snd (gen stub (experiment_of []) None 1 None (one_trial_strategy, world0))))
     = Inl GenerationStrategyCompleted
   \<and> fst (gen stub (one_trial FAILED) None 1 None
        (snd (gen stub (one_trial RUNNING) None 1 None
          (snd (gen stub (experiment_of []) None 1 None (one_trial_strategy, world0))))))
     = Inr ((run_of (Arm ''dup''))\<lparr>gr_generation_step_index := Some 0\<rparr>)"
  by (simp add: eval_defs one_trial_def one_trial_strategy_def world0_def stub_def)

text \<open>
  The signal depends on the steps, on the step pointer and on the experiment alone:
  it is raised on the last step when, for a step with a budget, the trials of the step
  that can complete have reached the budget and its completed trials the minimum to
  observe, and for a step without a limit, when its completion criteria are met.
\<close>

lemma current_step_experiment:
  "current_step (g\<lparr>gs_experiment := x\<rparr>) = current_step g"
  by (simp add: current_step_def)

lemma move_to_next_completed_iff:
  "fst (move_to_next g) = Inl GenerationStrategyCompleted \<longleftrightarrow>
     int (length (steps g)) = index (current_step g) + 1"
  by (simp add: move_to_next_def split: option.splits)

lemma raises_completed_iff:
  "raises_completed g e \<longleftrightarrow>
     int (length (steps g)) = index (current_step g) + 1 \<and>
     (if num_trials (current_step g) = -1
      then completion_criteria (current_step g) \<noteq> []
           \<and> list_all (\<lambda>criterion. criterion e) (completion_criteria (current_step g))
      else num_trials (current_step g) \<le> num_can_complete (current_step g) e
           \<and> min_trials_observed (current_step g) \<le> num_completed (current_step g) e)"
proof -
  have m: "fst (move_to_next (g\<lparr>gs_experiment := Some e\<rparr>)) = Inl GenerationStrategyCompleted
           \<longleftrightarrow> int (length (steps g)) = index (current_step g) + 1"
    by (simp add: move_to_next_completed_iff current_step_experiment)
  show ?thesis
  proof (cases "num_trials (current_step g) = -1")
    case True
    then show ?thesis
      using m
      by (simp add: raises_completed_def maybe_move_to_next_step_def
          num_trials_to_gen_and_complete_def step_experiment_def current_step_experiment)
  next
    case False
    then show ?thesis
      using m
      by (auto simp: raises_completed_def maybe_move_to_next_step_def
          num_trials_to_gen_and_complete_def step_experiment_def Let_def
          current_step_experiment)
  qed
qed

lemma raises_completed_cong:
  "steps g' = steps g \<Longrightarrow> curr g' = curr g \<Longrightarrow> raises_completed g' e = raises_completed g e"
  by (simp add: raises_completed_iff current_step_def)

lemma no_drop_completed:
  "raises_completed g e \<Longrightarrow> no_drop (current_step g) e e' \<Longrightarrow> raises_completed g e'"
  by (auto simp: raises_completed_iff no_drop_def split: if_splits)


lemma gen_multiple_raises_completed:
  assumes "raises_completed g e'" and "gs_experiment g = Some e0"
    and "experiment_name e' = experiment_name e0"
  shows "gen_multiple co e' k data n pending (g, w)
           = (Inl GenerationStrategyCompleted, g\<lparr>gs_experiment := Some e'\<rparr>, w)"
proof -
  have s: "set_experiment e' g = Inr (g\<lparr>gs_experiment := Some e'\<rparr>)"
    using assms(2,3) by (simp add: set_experiment_def)
  have m: "fst (maybe_move_to_next_step True (g\<lparr>gs_experiment := Some e'\<rparr>))
             = Inl GenerationStrategyCompleted"
    using assms(1) by (simp add: raises_completed_def)
  show ?thesis by (rule gen_multiple_completed[OF s m])
qed

lemma completed_persists:
  assumes "raises_completed g1 e"
  shows "gs_experiment g = Some ec \<Longrightarrow> experiment_name ec = experiment_name e \<Longrightarrow>
         steps g = steps g1 \<Longrightarrow> curr g = curr g1 \<Longrightarrow> raises_completed g1 ec \<Longrightarrow>
         list_all (call_no_drop (current_step g1) e) cs \<Longrightarrow>
         all_calls_completed co cs (g, w)"
proof (induction cs arbitrary: g w ec)
  case Nil
  then show ?case by simp
next
  case (Cons c cs)
  have cong: "raises_completed g x = raises_completed g1 x" for x
    by (rule raises_completed_cong[OF Cons.prems(3) Cons.prems(4)])
  have rest: "list_all (call_no_drop (current_step g1) e) cs" using Cons.prems(6) by simp
  have gen_case: "fst (gen_multiple co e' k data n pending (g, w)) = Inl GenerationStrategyCompleted
      \<and> fst (gen co e' data n pending (g, w)) = Inl GenerationStrategyCompleted
      \<and> snd (gen_multiple co e' k data n pending (g, w)) = (g\<lparr>gs_experiment := Some e'\<rparr>, w)
      \<and> all_calls_completed co cs (g\<lparr>gs_experiment := Some e'\<rparr>, w)"
    if nd: "no_drop (current_step g1) e e'" for e' k data n pending
  proof -
    have r1: "raises_completed g1 e'" by (rule no_drop_completed[OF assms nd])
    then have r: "raises_completed g e'" using cong by simp
    have nm: "experiment_name e' = experiment_name ec"
      using nd Cons.prems(2) by (simp add: no_drop_def)
    have gm: "gen_multiple co e' kk data n pending (g, w)
           = (Inl GenerationStrategyCompleted, g\<lparr>gs_experiment := Some e'\<rparr>, w)" for kk
      by (rule gen_multiple_raises_completed[OF r Cons.prems(1) nm])
    have nm': "experiment_name e' = experiment_name e" using nd by (simp add: no_drop_def)
    have "all_calls_completed co cs (g\<lparr>gs_experiment := Some e'\<rparr>, w)"
      by (rule Cons.IH[of "g\<lparr>gs_experiment := Some e'\<rparr>" e' w])
         (simp_all add: nm' Cons.prems(3) Cons.prems(4) r1 rest)
    then show ?thesis using gm by (simp add: gen_def)
  qed
  show ?case
  proof (cases c)
    case (CallGen e' data n pending)
    then have nd: "no_drop (current_step g1) e e'"
      using Cons.prems(6) by (simp add: call_no_drop_def)
    show ?thesis
      using gen_case[OF nd, of 1 data n pending] CallGen
      by (simp add: call_completed_def run_call_def gen_snd)
  next
    case (CallGenMultiple e' k data n pending)
    then have nd: "no_drop (current_step g1) e e'"
      using Cons.prems(6) by (simp add: call_no_drop_def)
    show ?thesis
      using gen_case[OF nd, of k data n pending] CallGenMultiple
      by (simp add: call_completed_def run_call_def)
  next
    case CallLimit
    have ge: "g\<lparr>gs_experiment := Some ec\<rparr> = g" using Cons.prems(1) by simp
    have "raises_completed g ec" using Cons.prems(5) cong by simp
    then have m: "fst (maybe_move_to_next_step True g) = Inl GenerationStrategyCompleted"
      by (simp add: raises_completed_def ge)
    have l: "current_generator_run_limit g = (Inr (0, True), g)"
      by (simp add: current_generator_run_limit_def maybe_move_completed[OF m, of False])
    have "all_calls_completed co cs (g, w)"
      by (rule Cons.IH[OF Cons.prems(1) Cons.prems(2) Cons.prems(3) Cons.prems(4)
            Cons.prems(5) rest])
    then show ?thesis using CallLimit l by (simp add: call_completed_def run_call_def)
  qed
qed

text \<open>
  C4, amended. Over every sequence of calls of \<^verbatim>\<open>gen\<close>, \<^verbatim>\<open>_gen_multiple\<close> and
  \<^verbatim>\<open>current_generator_run_limit\<close> on a strategy as the constructor makes it, the
  index of the current step never decreases. Once the check at the start of a cycle
  has raised the completed signal, every further call of \<^verbatim>\<open>gen\<close> or
  \<^verbatim>\<open>_gen_multiple\<close> fails with the signal again, and
  \<^verbatim>\<open>current_generator_run_limit\<close> reports \<open>(0, True)\<close>, as long as the calls are
  given the experiment of the strategy in states in which the last step's number of
  trials that can complete (those not \<open>FAILED\<close> or \<open>ABANDONED\<close>) and its number of
  completed trials are not below what they were when the signal was raised (for a
  step without a limit: in which its completion criteria are met). The strategy keeps
  no record of the signal, so that a trial of the last step that turns \<open>FAILED\<close> or
  \<open>ABANDONED\<close> afterwards reopens the generation.
\<close>

theorem C4_step_forward_and_completed_persists:
  assumes "wf_strategy g"
  shows "wf_strategy (fst (run_calls co cs (g, w)))
       \<and> index (current_step g) \<le> index (current_step (fst (run_calls co cs (g, w))))
       \<and> (set_experiment e g = Inr g1
            \<and> fst (maybe_move_to_next_step True g1) = Inl GenerationStrategyCompleted
            \<and> list_all (call_no_drop (current_step g1) e) cs' \<longrightarrow>
             gen_multiple co e k data n pending (g, w) = (Inl GenerationStrategyCompleted, g1, w)
           \<and> all_calls_completed co' cs' (g1, w'))"
proof -
  obtain g2 w2 where r: "run_calls co cs (g, w) = (g2, w2)" by (cases "run_calls co cs (g, w)")
  have f: "wf_strategy g2" "curr g \<le> curr g2" using run_calls_frame[OF assms r] by auto
  have mono: "index (current_step g) \<le> index (current_step g2)"
    using f wf_index[OF assms] wf_index[OF f(1)] by simp
  have again: "gen_multiple co e k data n pending (g, w) = (Inl GenerationStrategyCompleted, g1, w)
           \<and> all_calls_completed co' cs' (g1, w')"
    if s: "set_experiment e g = Inr g1"
      and m: "fst (maybe_move_to_next_step True g1) = Inl GenerationStrategyCompleted"
      and nd: "list_all (call_no_drop (current_step g1) e) cs'"
  proof -
    have a: "gen_multiple co e k data n pending (g, w) = (Inl GenerationStrategyCompleted, g1, w)"
      by (rule gen_multiple_completed[OF s m])
    have g1: "g1 = g\<lparr>gs_experiment := Some e\<rparr>" by (rule set_experiment_frame[OF s])
    then have e1: "gs_experiment g1 = Some e" and id: "g1\<lparr>gs_experiment := Some e\<rparr> = g1"
      by simp_all
    have rc: "raises_completed g1 e" using m by (simp add: raises_completed_def id)
    have "all_calls_completed co' cs' (g1, w')"
      by (rule completed_persists[OF rc e1 _ _ _ rc nd]) simp_all
    then show ?thesis using a by simp
  qed
  show ?thesis using f(1) mono again r by simp
qed

text \<open>
  In the witness the signal is raised while the one trial runs; then the trial is
  completed and a second trial is on the experiment, and the three further calls fail
  with the signal.
\<close>

theorem C4_witness:
  "wf_strategy one_trial_strategy
   \<and> set_experiment (one_trial RUNNING) one_trial_strategy
        = Inr (one_trial_strategy\<lparr>gs_experiment := Some (one_trial RUNNING)\<rparr>)
   \<and> fst (maybe_move_to_next_step True
        (one_trial_strategy\<lparr>gs_experiment := Some (one_trial RUNNING)\<rparr>))
        = Inl GenerationStrategyCompleted
   \<and> list_all (call_no_drop (current_step
          (one_trial_strategy\<lparr>gs_experiment := Some (one_trial RUNNING)\<rparr>)) (one_trial RUNNING))
        [CallGen (experiment_of [(0, trial COMPLETED 0), (1, trial RUNNING 0)]) None 1 None,
         CallLimit,
         CallGenMultiple (one_trial COMPLETED) 3 None 1 None]
   \<and> all_calls_completed stub
        [CallGen (experiment_of [(0, trial COMPLETED 0), (1, trial RUNNING 0)]) None 1 None,
         CallLimit,
         CallGenMultiple (one_trial COMPLETED) 3 None 1 None]
        (one_trial_strategy\<lparr>gs_experiment := Some (one_trial RUNNING)\<rparr>, world0)
   \<and> index (current_step one_trial_strategy)
        \<le> index (current_step (fst (run_calls stub
              [CallLimit, CallGen (one_trial FAILED) None 1 None]
              (one_trial_strategy, world0))))"
proof -
  have w: "wf_strategy one_trial_strategy"
    by (simp add: wf_strategy_def one_trial_strategy_def strategy_of_def sobol_step_def
        step_fields_def)
  have s: "set_experiment (one_trial RUNNING) one_trial_strategy
        = Inr (one_trial_strategy\<lparr>gs_experiment := Some (one_trial RUNNING)\<rparr>)"
    by (simp add: set_experiment_def one_trial_strategy_def strategy_of_def)
  have m: "fst (maybe_move_to_next_step True
        (one_trial_strategy\<lparr>gs_experiment := Some (one_trial RUNNING)\<rparr>))
        = Inl GenerationStrategyCompleted"
    by (simp add: eval_defs one_trial_def one_trial_strategy_def)
  have nd: "list_all (call_no_drop (current_step
          (one_trial_strategy\<lparr>gs_experiment := Some (one_trial RUNNING)\<rparr>)) (one_trial RUNNING))
        [CallGen (experiment_of [(0, trial COMPLETED 0), (1, trial RUNNING 0)]) None 1 None,
         CallLimit,
         CallGenMultiple (one_trial COMPLETED) 3 None 1 None]"
    by (simp add: call_no_drop_def no_drop_def eval_defs one_trial_def one_trial_strategy_def)
  show ?thesis
    using C4_step_forward_and_completed_persists[OF w, where co = stub
        and cs = "[CallLimit, CallGen (one_trial FAILED) None 1 None]" and w = world0
        and e = "one_trial RUNNING"
        and ?g1.0 = "one_trial_strategy\<lparr>gs_experiment := Some (one_trial RUNNING)\<rparr>"
        and cs' = "[CallGen (experiment_of [(0, trial COMPLETED 0), (1, trial RUNNING 0)]) None 1 None,
                    CallLimit, CallGenMultiple (one_trial COMPLETED) 3 None 1 None]"
        and co' = stub and w' = world0] w s m nd
    by blast
qed

text \<open>In a strategy of two steps the same experiment moves the pointer to the second.\<close>

lemma two_step_moves:
  "curr (fst (snd (gen stub (one_trial RUNNING) None 1 None (two_step_strategy, world0)))) = 1
   \<and> fst (gen stub (one_trial RUNNING) None 1 None (two_step_strategy, world0))
     = Inr ((run_of (Arm ''dup''))\<lparr>gr_generation_step_index := Some 1\<rparr>)"
  by (simp add: eval_defs one_trial_def two_step_strategy_def world0_def stub_def)

subsection \<open>The states of a strategy, and its copy\<close>

text \<open>
  Every state that a strategy reaches passes the checks of the constructor again, with
  every step at its own index.
\<close>

lemma init_refuses_config: "init_refuses idx n (step_config s) = init_refuses idx n s"
  by (simp add: init_refuses_def step_config_def)

lemma init_loop_fixed_iff:
  "(\<exists>reg'. init_loop idx n ss reg = Inr (ss, reg')) \<longleftrightarrow>
     (\<forall>i<length ss. \<not> init_refuses (idx + int i) n (ss ! i) \<and> index (ss ! i) = idx + int i)"
proof
  assume "\<exists>reg'. init_loop idx n ss reg = Inr (ss, reg')"
  then obtain reg' where r: "init_loop idx n ss reg = Inr (ss, reg')" by blast
  have a: "\<not> (\<exists>i<length ss. init_refuses (idx + int i) n (ss ! i))"
    using r init_loop_Inl[of idx n ss reg UserInputError] by simp
  have b: "\<forall>i<length ss. ss ! i = (ss ! i)\<lparr>index := idx + int i\<rparr>"
    using init_loop_Inr[OF r] by simp
  have "\<forall>i<length ss. index (ss ! i) = idx + int i"
  proof (intro allI impI)
    fix i assume "i < length ss"
    then have "ss ! i = (ss ! i)\<lparr>index := idx + int i\<rparr>" using b by simp
    then have "index (ss ! i) = index ((ss ! i)\<lparr>index := idx + int i\<rparr>)" by simp
    then show "index (ss ! i) = idx + int i" by simp
  qed
  then show "\<forall>i<length ss. \<not> init_refuses (idx + int i) n (ss ! i) \<and> index (ss ! i) = idx + int i"
    using a by blast
next
  assume h: "\<forall>i<length ss. \<not> init_refuses (idx + int i) n (ss ! i) \<and> index (ss ! i) = idx + int i"
  have "\<not> (\<exists>err. init_loop idx n ss reg = Inl err)"
    using h init_loop_Inl[of idx n ss reg] by blast
  then obtain ss' reg' where r: "init_loop idx n ss reg = Inr (ss', reg')"
    by (cases "init_loop idx n ss reg") auto
  have l: "length ss' = length ss" and b: "\<forall>i<length ss. ss' ! i = (ss ! i)\<lparr>index := idx + int i\<rparr>"
    using init_loop_Inr[OF r] by auto
  have "ss' = ss"
  proof (rule nth_equalityI)
    show "length ss' = length ss" by (rule l)
  next
    fix i assume "i < length ss'"
    then have i: "i < length ss" using l by simp
    then have "ss' ! i = (ss ! i)\<lparr>index := idx + int i\<rparr>" using b by simp
    also have "\<dots> = ss ! i" using h i by simp
    finally show "ss' ! i = ss ! i" .
  qed
  then show "\<exists>reg'. init_loop idx n ss reg = Inr (ss, reg')" using r by blast
qed

lemma valid_strategy_iff:
  "valid_strategy g \<longleftrightarrow>
     curr g < length (steps g) \<and>
     (\<forall>i<length (steps g). \<not> init_refuses (int i) (int (length (steps g))) (steps g ! i)
                           \<and> index (steps g ! i) = int i)"
  using init_loop_fixed_iff[of 0 "int (length (steps g))" "steps g" True]
  by (simp add: valid_strategy_def)

lemma valid_wf: "valid_strategy g \<Longrightarrow> wf_strategy g"
proof -
  assume v: "valid_strategy g"
  have "map index (steps g) = map int [0..<length (steps g)]"
  proof (rule nth_equalityI)
    show "length (map index (steps g)) = length (map int [0..<length (steps g)])" by simp
  next
    fix i assume "i < length (map index (steps g))"
    then show "map index (steps g) ! i = map int [0..<length (steps g)] ! i"
      using v by (simp add: valid_strategy_iff)
  qed
  then show ?thesis using v by (simp add: wf_strategy_def valid_strategy_iff)
qed

lemma valid_strategy_config:
  assumes "valid_strategy g" "map step_config (steps g') = map step_config (steps g)"
    "curr g' < length (steps g')"
  shows "valid_strategy g'"
proof -
  have l: "length (steps g') = length (steps g)" using assms(2) by (metis length_map)
  have c: "step_config (steps g' ! i) = step_config (steps g ! i)" if "i < length (steps g)" for i
  proof -
    have "step_config (steps g' ! i) = map step_config (steps g') ! i" using that l by simp
    also have "\<dots> = map step_config (steps g) ! i" using assms(2) by simp
    also have "\<dots> = step_config (steps g ! i)" using that by simp
    finally show ?thesis .
  qed
  have "\<not> init_refuses (int i) (int (length (steps g'))) (steps g' ! i)
        \<and> index (steps g' ! i) = int i" if i: "i < length (steps g')" for i
  proof -
    have i': "i < length (steps g)" using i l by simp
    have "init_refuses (int i) (int (length (steps g'))) (steps g' ! i)
          = init_refuses (int i) (int (length (steps g))) (step_config (steps g' ! i))"
      using l by (simp add: init_refuses_config)
    also have "\<dots> = init_refuses (int i) (int (length (steps g))) (steps g ! i)"
      using c[OF i'] by (simp add: init_refuses_config)
    finally have r: "init_refuses (int i) (int (length (steps g'))) (steps g' ! i)
          = init_refuses (int i) (int (length (steps g))) (steps g ! i)" .
    have "index (steps g' ! i) = index (step_config (steps g' ! i))"
      by (simp add: index_step_config)
    also have "\<dots> = index (steps g ! i)" using c[OF i'] by (simp add: index_step_config)
    finally show ?thesis using r assms(1) i' by (simp add: valid_strategy_iff)
  qed
  then show ?thesis using assms(3) by (simp add: valid_strategy_iff)
qed

lemma init_valid:
  assumes "init ss nm = Inr g"
  shows "valid_strategy g \<and> curr g = 0 \<and> generator_runs g = [] \<and> gs_name g = nm
       \<and> gs_experiment g = None \<and> gs_model g = None
       \<and> seen_trial_indices_by_status g = None"
proof -
  obtain ss' reg where r: "init_loop 0 (int (length ss)) ss True = Inr (ss', reg)"
    using assms by (auto simp: init_def split: sum.splits)
  have ne: "ss' \<noteq> []" using assms r by (auto simp: init_def list_index_0 split: if_splits)
  have g: "g = \<lparr>gs_name = nm, steps = ss', curr = 0, uses_registered_models = reg,
                generator_runs = [], gs_experiment = None,
                seen_trial_indices_by_status = None, gs_model = None\<rparr>"
    using assms r ne by (simp add: init_def list_index_0)
  have l: "length ss' = length ss" and b: "\<forall>i<length ss. ss' ! i = (ss ! i)\<lparr>index := int i\<rparr>"
    using init_loop_Inr[OF r] by auto
  have nr: "\<not> (\<exists>i<length ss. init_refuses (int i) (int (length ss)) (ss ! i))"
    using r init_loop_Inl[of 0 "int (length ss)" ss True UserInputError] by simp
  have "\<not> init_refuses (int i) (int (length ss')) (ss' ! i) \<and> index (ss' ! i) = int i"
    if i: "i < length ss'" for i
  proof -
    have i': "i < length ss" using i l by simp
    have e: "ss' ! i = (ss ! i)\<lparr>index := int i\<rparr>" using b i' by simp
    have "init_refuses (int i) (int (length ss')) (ss' ! i)
          = init_refuses (int i) (int (length ss)) (ss ! i)"
      unfolding e l by (simp add: init_refuses_def)
    then show ?thesis using nr i' e by simp
  qed
  then have "valid_strategy g" using g ne by (simp add: valid_strategy_iff)
  then show ?thesis using g by simp
qed

lemma reachable_valid: "reachable g \<Longrightarrow> valid_strategy g"
proof -
  assume "reachable g"
  then obtain ss nm g0 co cs w where i: "init ss nm = Inr g0"
    and g: "g = fst (run_calls co cs (g0, w))"
    by (auto simp: reachable_def)
  have v0: "valid_strategy g0" using init_valid[OF i] by simp
  obtain w' where r: "run_calls co cs (g0, w) = (g, w')"
    using g by (cases "run_calls co cs (g0, w)") simp
  have f: "wf_strategy g" "map step_config (steps g) = map step_config (steps g0)"
    using run_calls_frame[OF valid_wf[OF v0] r] by auto
  have "curr g < length (steps g)" using f(1) by (simp add: wf_strategy_def)
  then show ?thesis by (rule valid_strategy_config[OF v0 f(2)])
qed


lemma name_frame:
  "snd (name g) = g\<lparr>gs_name := Some (fst (name g))\<rparr>
   \<and> fst (name (g\<lparr>gs_name := Some (fst (name g))\<rparr>)) = fst (name g)"
  by (cases "gs_name g") (simp_all add: name_def Let_def)

lemma name_steps: "steps (snd (name g)) = steps g"
  by (cases "gs_name g") (simp_all add: name_def Let_def)

text \<open>
  C9, the claim as it stands: \<^verbatim>\<open>clone_reset\<close> does not modify the strategy it is
  called on. On a strategy constructed without a name the call reads the property
  \<^verbatim>\<open>name\<close>, which stores the default name in the strategy.
\<close>

theorem C9_clone_reset_sets_name:
  "construct [step_fields 3 2 None] None = Inr (strategy_of [sobol_step 0 3 2 None])
   \<and> gs_name (strategy_of [sobol_step 0 3 2 None]) = None
   \<and> gs_name (snd (clone_reset (strategy_of [sobol_step 0 3 2 None]))) = Some ''Sobol''"
  by (simp add: construct_def init_def post_init_def step_fields_def sobol_step_def
      is_registry_def model_key_def strategy_of_def list_index_def clone_reset_def name_def
      Let_def)

text \<open>
  C9, amended. On every strategy, \<^verbatim>\<open>clone_reset\<close> returns a new strategy whose
  steps are equal to those of the original, whose history of generator runs is empty
  and whose current step is the first step, with index 0. The call leaves the original
  as it is but for the name: when none was set, the default name, the one that the
  property \<^verbatim>\<open>name\<close> returns before and after, is stored in it.
\<close>

theorem C9_clone_reset:
  assumes "reachable g"
  shows "\<exists>g'. fst (clone_reset g) = Inr g'
           \<and> steps g' = steps g \<and> generator_runs g' = [] \<and> curr g' = 0
           \<and> index (current_step g') = 0 \<and> gs_name g' = Some (fst (name g))
           \<and> snd (clone_reset g) = g\<lparr>gs_name := Some (fst (name g))\<rparr>
           \<and> fst (name (snd (clone_reset g))) = fst (name g)"
proof -
  have v: "valid_strategy g" by (rule reachable_valid[OF assms])
  then obtain reg where r: "init_loop 0 (int (length (steps g))) (steps g) True = Inr (steps g, reg)"
    and c: "curr g < length (steps g)"
    by (auto simp: valid_strategy_def)
  have ne: "steps g \<noteq> []" using c by auto
  have i0: "index (steps g ! 0) = 0" using v ne by (simp add: valid_strategy_iff)
  define g' where "g' = \<lparr>gs_name = Some (fst (name g)), steps = steps g, curr = 0,
      uses_registered_models = reg, generator_runs = [], gs_experiment = None,
      seen_trial_indices_by_status = None, gs_model = None\<rparr>"
  have s: "steps (snd (name g)) = steps g" by (rule name_steps)
  have "clone_reset g = (init (steps g) (Some (fst (name g))), snd (name g))"
    using s by (simp add: clone_reset_def case_prod_beta)
  moreover have "init (steps g) (Some (fst (name g))) = Inr g'"
    using r ne by (simp add: init_def list_index_0 g'_def)
  ultimately have "fst (clone_reset g) = Inr g'" and "snd (clone_reset g) = snd (name g)"
    by simp_all
  then show ?thesis
    using name_frame[of g] i0 by (intro exI[of _ g']) (simp add: g'_def current_step_def)
qed

lemma init_unlimited: "init [sobol_step (-1) (-1) 0 None] None = Inr unlimited_strategy"
  by (simp add: init_def sobol_step_def step_fields_def is_registry_def strategy_of_def
      list_index_def unlimited_strategy_def)

lemma after_one_gen:
  "generator_runs (fst (run_calls stub [CallGen (experiment_of []) None 1 None]
      (unlimited_strategy, world0)))
   = [(run_of (Arm ''dup''))\<lparr>gr_generation_step_index := Some 0\<rparr>]"
  by (simp add: run_call_def eval_defs unlimited_strategy_def world0_def stub_def)

theorem C9_witness:
  "reachable (fst (run_calls stub [CallGen (experiment_of []) None 1 None]
      (unlimited_strategy, world0)))
   \<and> generator_runs (fst (run_calls stub [CallGen (experiment_of []) None 1 None]
      (unlimited_strategy, world0))) \<noteq> []
   \<and> (\<exists>g'. fst (clone_reset (fst (run_calls stub [CallGen (experiment_of []) None 1 None]
                 (unlimited_strategy, world0)))) = Inr g'
           \<and> steps g' = steps (fst (run_calls stub [CallGen (experiment_of []) None 1 None]
                 (unlimited_strategy, world0)))
           \<and> generator_runs g' = [] \<and> curr g' = 0 \<and> index (current_step g') = 0)"
proof -
  have r: "reachable (fst (run_calls stub [CallGen (experiment_of []) None 1 None]
      (unlimited_strategy, world0)))"
    unfolding reachable_def using init_unlimited by blast
  show ?thesis using C9_clone_reset[OF r] r after_one_gen by auto
qed

end
